theory Spec2Isabelle
  imports Complex_Main
begin

section \<open>Values of the program\<close>

text \<open>
  The program is \<^verbatim>\<open>src/App.tsx\<close>, a React component holding a lap timer.

  A JavaScript number that is finite is a \<^typ>\<open>real\<close>: every operation the timer applies
  to milliseconds (\<open>+\<close>, \<open>-\<close>, \<open>Math.max\<close>, \<open>Math.floor\<close>, comparison) is read at
  its exact value. \<open>NaN\<close> appears only where the source tests for it, on the value of
  the target input and on the \<open>targetMinutes\<close> parameter of \<open>getPresetStatus\<close>; an
  optional parameter is an \<open>option\<close>, \<open>None\<close> being \<open>undefined\<close> (or \<open>null\<close>, which
  every test of the source, written \<open>== null\<close>, \<open>!= null\<close> or \<open>??\<close>, treats alike).

  A JavaScript string is the list of its UTF-16 code units.
\<close>

datatype number = NaN | Num real

type_synonym jsstring = "nat list"

definition ascii :: "string \<Rightarrow> jsstring" where
  "ascii cs = map of_char cs"

subsection \<open>\<open>getPresetStatus\<close>\<close>

text \<open>
  The three results of \<open>getPresetStatus\<close> are the string literals
  \<open>"-"\<close> (\<open>Unset\<close>), U+8D85 U+904E (\<open>Exceeded\<close>) and U+672A U+8D85 U+904E
  (\<open>NotExceeded\<close>).
\<close>

datatype status = Unset | Exceeded | NotExceeded

fun getPresetStatus :: "real \<Rightarrow> number option \<Rightarrow> status" where
  "getPresetStatus durationMs None = Unset"
| "getPresetStatus durationMs (Some NaN) = Unset"
| "getPresetStatus durationMs (Some (Num targetMinutes)) =
     (let targetMs = targetMinutes * 60000
      in if durationMs > targetMs then Exceeded else NotExceeded)"

subsection \<open>\<open>computePresetFromInput\<close>\<close>

text \<open>
  \<open>String.prototype.trim\<close> removes the white space and line terminators of ECMAScript
  from both ends.
\<close>

definition js_whitespace :: "nat \<Rightarrow> bool" where
  "js_whitespace c \<longleftrightarrow>
     c \<in> {0x9, 0xA, 0xB, 0xC, 0xD, 0x20, 0xA0, 0x1680, 0x2028, 0x2029, 0x202F, 0x205F,
          0x3000, 0xFEFF} \<or> (0x2000 \<le> c \<and> c \<le> 0x200A)"

definition trim :: "jsstring \<Rightarrow> jsstring" where
  "trim s = rev (dropWhile js_whitespace (rev (dropWhile js_whitespace s)))"

text \<open>
  \<open>computePresetFromInput(raw, valueAsNumber)\<close>: the second argument is the
  \<open>valueAsNumber\<close> of the number input, \<open>NaN\<close> or a finite number, or \<open>undefined\<close>.
  The result \<open>Math.max(0, Math.floor(n))\<close> is a number again.
\<close>

definition computePresetFromInput :: "jsstring \<Rightarrow> number option \<Rightarrow> real option" where
  "computePresetFromInput raw valueAsNumber =
     (if trim raw = [] then None
      else case valueAsNumber of
             None \<Rightarrow> None
           | Some NaN \<Rightarrow> None
           | Some (Num n) \<Rightarrow> Some (max 0 (of_int \<lfloor>n\<rfloor>)))"


section \<open>The timer\<close>

subsection \<open>Laps, stored payloads and the component's cells\<close>

text \<open>
  \<open>type Lap = { startTs; endTs; durationMs; targetMinutes? }\<close>. A target that is
  stored is never \<open>NaN\<close>: \<open>computePresetFromInput\<close> returns \<open>undefined\<close> for it and
  JSON has no such value.
\<close>

record lap =
  startTs :: real
  endTs :: real
  durationMs :: real
  targetMinutes :: "real option"

text \<open>
  The items of \<open>localStorage\<close>. A stored text is represented by what the program's
  parser makes of it, at the types the source declares:
  \<^item> the text under \<open>web_timer_reloads_left_v6\<close> by the result of \<open>parseInt(_, 10)\<close>,
    \<open>NaN\<close> or an integer;
  \<^item> a text handed to \<open>JSON.parse\<close> by \<open>SyntaxError\<close> when the call throws, by
    \<open>Falsy\<close> when the result fails the test \<open>if (parsed)\<close>, and otherwise by the
    fields the program reads from the result, a field being \<open>None\<close> when it is absent,
    \<open>null\<close>, or fails the \<open>typeof\<close> or \<open>Array.isArray\<close> test made on it.
  An item is \<open>None\<close> when \<open>getItem\<close> returns \<open>null\<close> or the empty text, which the
  test \<open>if (raw)\<close> treats alike. The snapshot under \<open>web_timer_state_v5\<close> has the
  fields of the current one, of which the program reads six.
\<close>

datatype counter_text = NotANumber | Count int

datatype 'a parsed = SyntaxError | Falsy | Object 'a

record snapshot =
  s_laps :: "lap list option"
  s_baseElapsed :: "real option"
  s_sessionStartTs :: "real option"
  s_lapAnchorTs :: "real option"
  s_activeStartTs :: "real option"
  s_activeTargetMinutes :: "real option"
  s_lastPauseTs :: "real option"
  s_currentTargetMinutes :: "real option"

record segment =
  seg_start :: "real option"
  seg_end :: "real option"
  seg_targetMinutes :: "real option"

record legacy =
  l_segments :: "segment list option"
  l_baseElapsed :: "real option"

record storage =
  reloads_left_v6 :: "counter_text option"
  state_v6 :: "snapshot parsed option"
  state_v5 :: "snapshot parsed option"
  state_v4 :: "legacy parsed option"

text \<open>
  What a function of one render has captured: the handlers read \<open>isRunning\<close>,
  \<open>elapsed\<close>, \<open>lapsAccumulatedMs\<close> and \<open>currentTargetMinutes\<close> from the render that
  created them, and the refs and \<open>localStorage\<close> live.
\<close>

record closure =
  c_isRunning :: bool
  c_elapsed :: real
  c_lapsAccumulatedMs :: real
  c_currentTargetMinutes :: "real option"

text \<open>
  The component \<open>App\<close>: its \<open>useState\<close> cells (\<open>lapsId\<close> is the identity of the array
  held in \<open>laps\<close>, which \<open>setLaps\<close> always renews and which the dependency lists
  compare), its \<open>useRef\<close> cells, the values of its \<open>useMemo\<close> cells and of the
  constants \<open>hasActive\<close> and \<open>rangeStart\<close> at the last render, the closure that the \<open>keydown\<close> listener holds, and \<open>localStorage\<close>.
\<close>

record app =
  isRunning :: bool
  baseElapsed :: real
  tick :: nat
  laps :: "lap list"
  lapsId :: nat
  currentTargetMinutes :: "real option"
  reloadsLeft :: int
  startedAtRef :: "real option"
  sessionStartTsRef :: "real option"
  lapAnchorTsRef :: "real option"
  activeStartTsRef :: "real option"
  lastPauseTsRef :: "real option"
  activeTargetMinutesRef :: "real option"
  prevElapsedRef :: real
  prevRangeDurRef :: real
  rawElapsed :: real
  elapsed :: real
  hasActive :: bool
  activeRow :: "lap option"
  rangeStart :: "real option"
  rangeEnd :: "real option"
  rangeDuration :: real
  displayRangeDuration :: real
  keyClosure :: closure
  localStorage :: storage

text \<open>
  What the environment answers during one event: \<open>Date.now()\<close> in the handler and in
  the \<open>rawElapsed\<close>, \<open>activeRow\<close> and \<open>rangeEnd\<close> memos of the render that follows, with
  no order assumed between them, and whether React runs the updater given to
  \<open>setBaseElapsed\<close> at once or in the render, after \<open>handlePause\<close> has cleared
  \<open>startedAtRef\<close>.
\<close>

record env =
  handlerNow :: real
  rawNow :: real
  activeNow :: real
  rangeNow :: real
  eagerUpdater :: bool

definition MAX_RELOADS :: int where
  "MAX_RELOADS = 2"

text \<open>\<open>x ?? d\<close>, and \<open>x || d\<close> on a number.\<close>

definition nullish :: "'a option \<Rightarrow> 'a \<Rightarrow> 'a" where
  "nullish x d = (case x of Some v \<Rightarrow> v | None \<Rightarrow> d)"

definition or_else :: "real \<Rightarrow> real \<Rightarrow> real" where
  "or_else x d = (if x = 0 then d else x)"

text \<open>\<open>Math.min(...xs)\<close> and \<open>Math.max(...xs)\<close>, called on lists that are not empty.\<close>

fun js_min :: "real list \<Rightarrow> real" where
  "js_min [] = 0"
| "js_min (x # xs) = fold min xs x"

fun js_max :: "real list \<Rightarrow> real" where
  "js_max [] = 0"
| "js_max (x # xs) = fold max xs x"

definition lapsAccumulatedMs :: "lap list \<Rightarrow> real" where
  "lapsAccumulatedMs ls = foldl (\<lambda>acc l. acc + or_else (durationMs l) 0) 0 ls"

definition closure_of :: "app \<Rightarrow> closure" where
  "closure_of s =
     \<lparr>c_isRunning = isRunning s, c_elapsed = elapsed s,
      c_lapsAccumulatedMs = lapsAccumulatedMs (laps s),
      c_currentTargetMinutes = currentTargetMinutes s\<rparr>"

subsection \<open>The handlers\<close>

definition handleStart :: "closure \<Rightarrow> real \<Rightarrow> app \<Rightarrow> app" where
  "handleStart c now s =
     (if c_isRunning c then s
      else
        let s1 = s\<lparr>startedAtRef := Some now, isRunning := True\<rparr>
        in if sessionStartTsRef s1 = None
           then s1\<lparr>sessionStartTsRef := Some now, lapAnchorTsRef := Some now,
                   activeStartTsRef := Some now,
                   activeTargetMinutesRef := c_currentTargetMinutes c\<rparr>
           else if activeStartTsRef s1 = None
           then s1\<lparr>activeStartTsRef :=
                     Some (nullish (lapAnchorTsRef s1) (nullish (sessionStartTsRef s1) now))\<rparr>
           else s1)"

text \<open>
  In \<open>handlePause\<close> the updater \<open>v => ...\<close> reads \<open>startedAtRef.current\<close> when React
  runs it: at once, or in the next render, when the handler has already set the ref to
  \<open>null\<close> and \<open>startedAtRef.current ?? now\<close> is \<open>now\<close>.
\<close>

definition handlePause :: "closure \<Rightarrow> bool \<Rightarrow> real \<Rightarrow> app \<Rightarrow> app" where
  "handlePause c eager now s =
     (if \<not> c_isRunning c then s
      else
        let started = (if eager then startedAtRef s else None);
            computed = baseElapsed s + (now - nullish started now);
            displayedElapsed = c_elapsed c;
            next = max displayedElapsed computed
        in s\<lparr>isRunning := False, baseElapsed := next, startedAtRef := None,
              lastPauseTsRef := Some now\<rparr>)"

definition resetReloadBudget :: "app \<Rightarrow> app" where
  "resetReloadBudget s =
     s\<lparr>reloadsLeft := MAX_RELOADS,
       localStorage := (localStorage s)\<lparr>reloads_left_v6 := Some (Count MAX_RELOADS)\<rparr>\<rparr>"

definition handleReset :: "closure \<Rightarrow> app \<Rightarrow> app" where
  "handleReset c s =
     (if c_isRunning c then s
      else
        let s1 = s\<lparr>isRunning := False, baseElapsed := 0, startedAtRef := None,
                   laps := [], lapsId := lapsId s + 1\<rparr>;
            s2 = s1\<lparr>sessionStartTsRef := None, lapAnchorTsRef := None,
                    activeStartTsRef := None, lastPauseTsRef := None\<rparr>;
            s3 = s2\<lparr>activeTargetMinutesRef := None, currentTargetMinutes := None\<rparr>;
            s4 = resetReloadBudget
                   (s3\<lparr>localStorage := (localStorage s3)\<lparr>state_v6 := None\<rparr>\<rparr>)
        in s4\<lparr>prevElapsedRef := 0, prevRangeDurRef := 0\<rparr>)"

definition handleLap :: "closure \<Rightarrow> real \<Rightarrow> app \<Rightarrow> app" where
  "handleLap c now s =
     (if \<not> c_isRunning c then s
      else if sessionStartTsRef s = None then s
      else
        let currentLapMs = max 0 (c_elapsed c - c_lapsAccumulatedMs c);
            newLap = \<lparr>startTs = nullish (activeStartTsRef s)
                                  (nullish (lapAnchorTsRef s) (nullish (sessionStartTsRef s) now)),
                      endTs = now, durationMs = currentLapMs,
                      targetMinutes = activeTargetMinutesRef s\<rparr>
        in s\<lparr>laps := laps s @ [newLap], lapsId := lapsId s + 1,
              lapAnchorTsRef := Some now, activeStartTsRef := Some now,
              activeTargetMinutesRef := c_currentTargetMinutes c\<rparr>)"

definition handlePresetChange :: "jsstring \<Rightarrow> number option \<Rightarrow> app \<Rightarrow> app" where
  "handlePresetChange raw valueAsNumber s =
     s\<lparr>currentTargetMinutes := computePresetFromInput raw valueAsNumber\<rparr>"

subsection \<open>One render\<close>

text \<open>
  A render recomputes a \<open>useMemo\<close> cell when one of its dependencies differs from the
  render before, \<open>old\<close>; otherwise the cell keeps its value. \<open>elapsed\<close> and
  \<open>displayRangeDuration\<close> write their result to \<open>prevElapsedRef\<close> and
  \<open>prevRangeDurRef\<close>.
\<close>

definition render_elapsed :: "env \<Rightarrow> app \<Rightarrow> app \<Rightarrow> app" where
  "render_elapsed k old s =
     (let raw =
            (if isRunning s = isRunning old \<and> baseElapsed s = baseElapsed old \<and>
                tick s = tick old
             then rawElapsed old
             else case startedAtRef s of
                    Some started \<Rightarrow>
                      if isRunning s then baseElapsed s + (rawNow k - started)
                      else baseElapsed s
                  | None \<Rightarrow> baseElapsed s)
      in if raw = rawElapsed old then s\<lparr>rawElapsed := raw\<rparr>
         else let val = max (prevElapsedRef s) raw
              in s\<lparr>rawElapsed := raw, elapsed := val, prevElapsedRef := val\<rparr>)"

definition render_activeRow :: "env \<Rightarrow> app \<Rightarrow> app \<Rightarrow> app" where
  "render_activeRow k old s =
     (let active = (activeStartTsRef s \<noteq> None);
          s1 = s\<lparr>hasActive := active\<rparr>
      in if active = hasActive old \<and> isRunning s = isRunning old \<and>
            elapsed s = elapsed old \<and>
            lapsAccumulatedMs (laps s) = lapsAccumulatedMs (laps old) \<and> tick s = tick old
         then s1
         else s1\<lparr>activeRow :=
                   (case activeStartTsRef s of
                      None \<Rightarrow> None
                    | Some start \<Rightarrow>
                        Some \<lparr>startTs = start,
                              endTs = (if isRunning s then activeNow k
                                       else nullish (lastPauseTsRef s) (activeNow k)),
                              durationMs = max 0 (elapsed s - lapsAccumulatedMs (laps s)),
                              targetMinutes = activeTargetMinutesRef s\<rparr>)\<rparr>)"

definition render_range :: "env \<Rightarrow> app \<Rightarrow> app \<Rightarrow> app" where
  "render_range k old s =
     (let rs = sessionStartTsRef s;
          re =
            (if lapsId s = lapsId old \<and> isRunning s = isRunning old \<and> tick s = tick old \<and>
                rs = rangeStart old
             then rangeEnd old
             else case rs of
                    None \<Rightarrow> None
                  | Some start \<Rightarrow>
                      let end0 = (if laps s \<noteq> [] then Some (js_max (map endTs (laps s)))
                                  else None);
                          live = (if isRunning s then Some (rangeNow k) else lastPauseTsRef s);
                          end1 = (case live of
                                    None \<Rightarrow> end0
                                  | Some l \<Rightarrow>
                                      Some (case end0 of None \<Rightarrow> l | Some e \<Rightarrow> max e l))
                      in Some (nullish end1 start));
          rd = (case rs of
                  None \<Rightarrow> 0
                | Some a \<Rightarrow> (case re of None \<Rightarrow> 0 | Some b \<Rightarrow> max 0 (b - a)));
          s1 = s\<lparr>rangeStart := rs, rangeEnd := re, rangeDuration := rd\<rparr>
      in if rd = rangeDuration old then s1
         else let val = max (prevRangeDurRef s) rd
              in s1\<lparr>displayRangeDuration := val, prevRangeDurRef := val\<rparr>)"

definition render :: "env \<Rightarrow> app \<Rightarrow> app \<Rightarrow> app" where
  "render k old s = render_range k old (render_activeRow k old (render_elapsed k old s))"

subsection \<open>The effects\<close>

text \<open>
  The effect that saves: \<open>r\<close> is the render whose \<open>laps\<close>, \<open>baseElapsed\<close>,
  \<open>currentTargetMinutes\<close> and \<open>reloadsLeft\<close> it has captured; the refs are read when it
  runs. \<open>JSON.stringify\<close> leaves out a field that is \<open>undefined\<close> and writes \<open>null\<close>
  for a ref that is \<open>null\<close>.
\<close>

definition persist :: "app \<Rightarrow> app \<Rightarrow> app" where
  "persist r s =
     (if reloadsLeft r > 0
      then s\<lparr>localStorage := (localStorage s)\<lparr>state_v6 := Some (Object
               \<lparr>s_laps = Some (laps r), s_baseElapsed = Some (baseElapsed r),
                s_sessionStartTs = sessionStartTsRef s,
                s_lapAnchorTs = lapAnchorTsRef s,
                s_activeStartTs = activeStartTsRef s,
                s_activeTargetMinutes = activeTargetMinutesRef s,
                s_lastPauseTs = lastPauseTsRef s,
                s_currentTargetMinutes = currentTargetMinutes r\<rparr>)\<rparr>\<rparr>
      else s\<lparr>localStorage := (localStorage s)\<lparr>state_v6 := None\<rparr>\<rparr>)"

definition restore_v6 :: "snapshot \<Rightarrow> app \<Rightarrow> app" where
  "restore_v6 p s =
     (let s1 = (case s_laps p of
                  Some ls \<Rightarrow> s\<lparr>laps := ls, lapsId := lapsId s + 1\<rparr> | None \<Rightarrow> s);
          s2 = (case s_baseElapsed p of Some b \<Rightarrow> s1\<lparr>baseElapsed := b\<rparr> | None \<Rightarrow> s1);
          s3 = (case s_sessionStartTs p of
                  Some t \<Rightarrow> s2\<lparr>sessionStartTsRef := Some t\<rparr> | None \<Rightarrow> s2);
          s4 = (case s_lapAnchorTs p of
                  Some t \<Rightarrow> s3\<lparr>lapAnchorTsRef := Some t\<rparr> | None \<Rightarrow> s3);
          s5 = (case s_activeStartTs p of
                  Some t \<Rightarrow> s4\<lparr>activeStartTsRef := Some t\<rparr> | None \<Rightarrow> s4);
          s6 = (case s_lastPauseTs p of
                  Some t \<Rightarrow> s5\<lparr>lastPauseTsRef := Some t\<rparr> | None \<Rightarrow> s5);
          s7 = (case s_activeTargetMinutes p of
                  Some m \<Rightarrow> s6\<lparr>activeTargetMinutesRef := Some m\<rparr> | None \<Rightarrow> s6)
      in case s_currentTargetMinutes p of
           Some m \<Rightarrow> s7\<lparr>currentTargetMinutes := Some m\<rparr> | None \<Rightarrow> s7)"

definition migrate_v5 :: "snapshot \<Rightarrow> app \<Rightarrow> app" where
  "migrate_v5 v5 s =
     (let s1 = (case s_laps v5 of
                  Some ls \<Rightarrow> s\<lparr>laps := ls, lapsId := lapsId s + 1\<rparr> | None \<Rightarrow> s);
          s2 = (case s_baseElapsed v5 of Some b \<Rightarrow> s1\<lparr>baseElapsed := b\<rparr> | None \<Rightarrow> s1);
          s3 = s2\<lparr>sessionStartTsRef := s_sessionStartTs v5\<rparr>;
          s4 = s3\<lparr>lapAnchorTsRef :=
                    (case s_lapAnchorTs v5 of Some t \<Rightarrow> Some t | None \<Rightarrow> sessionStartTsRef s3)\<rparr>;
          s5 = s4\<lparr>activeStartTsRef :=
                    (case lapAnchorTsRef s4 of Some t \<Rightarrow> Some t | None \<Rightarrow> sessionStartTsRef s4)\<rparr>;
          s6 = s5\<lparr>lastPauseTsRef := s_lastPauseTs v5\<rparr>
      in case s_currentTargetMinutes v5 of
           Some m \<Rightarrow> s6\<lparr>currentTargetMinutes := Some m\<rparr> | None \<Rightarrow> s6)"

text \<open>
  The two older formats. \<open>migrate_segment\<close> is the function given to \<open>map\<close> in the
  branch of the oldest one, applied after the \<open>filter\<close> to segments whose \<open>start\<close> and
  \<open>end\<close> are numbers; a segment is an object, as that format wrote it.
\<close>

definition migrate_segment :: "segment \<Rightarrow> lap" where
  "migrate_segment sg =
     \<lparr>startTs = nullish (seg_start sg) 0, endTs = nullish (seg_end sg) 0,
      durationMs = max 0 (nullish (seg_end sg) 0 - nullish (seg_start sg) 0),
      targetMinutes = seg_targetMinutes sg\<rparr>"

definition migrate_v4 :: "legacy \<Rightarrow> app \<Rightarrow> app" where
  "migrate_v4 lg s =
     (case l_segments lg of
        None \<Rightarrow> s
      | Some segments \<Rightarrow>
          let migrated = map migrate_segment
                (filter (\<lambda>sg. seg_start sg \<noteq> None \<and> seg_end sg \<noteq> None) segments);
              s1 = s\<lparr>laps := migrated, lapsId := lapsId s + 1\<rparr>;
              s2 = s1\<lparr>baseElapsed := nullish (l_baseElapsed lg) 0\<rparr>;
              s3 = s2\<lparr>sessionStartTsRef :=
                        (if migrated \<noteq> [] then Some (js_min (map startTs migrated)) else None)\<rparr>;
              lastEnd = (if migrated \<noteq> [] then Some (js_max (map endTs migrated)) else None);
              s4 = s3\<lparr>lapAnchorTsRef :=
                        (case lastEnd of Some t \<Rightarrow> Some t | None \<Rightarrow> sessionStartTsRef s3)\<rparr>;
              s5 = s4\<lparr>activeStartTsRef :=
                        (case lapAnchorTsRef s4 of
                           Some t \<Rightarrow> Some t | None \<Rightarrow> sessionStartTsRef s4)\<rparr>
          in s5\<lparr>lastPauseTsRef := lastEnd\<rparr>)"

definition consume :: "int \<Rightarrow> app \<Rightarrow> app" where
  "consume left s =
     (let left' = max 0 (left - 1)
      in s\<lparr>reloadsLeft := left',
           localStorage := (localStorage s)\<lparr>reloads_left_v6 := Some (Count left')\<rparr>\<rparr>)"

text \<open>
  The effect that restores, run once after the first render. \<open>JSON.parse\<close> of the
  current snapshot is inside the outer \<open>try\<close> only, whose \<open>catch\<close> ends the effect;
  those of the two older snapshots have a \<open>try\<close> of their own.
\<close>

definition restore :: "app \<Rightarrow> app" where
  "restore s =
     (let left = (case reloads_left_v6 (localStorage s) of
                    Some (Count n) \<Rightarrow> n | Some NotANumber \<Rightarrow> MAX_RELOADS
                  | None \<Rightarrow> MAX_RELOADS);
          s1 = s\<lparr>reloadsLeft := left\<rparr>
      in if left > 0
         then
           (case state_v6 (localStorage s1) of
              Some SyntaxError \<Rightarrow> s1
            | Some Falsy \<Rightarrow> consume left s1
            | Some (Object p) \<Rightarrow> consume left (restore_v6 p s1)
            | None \<Rightarrow>
                (case state_v5 (localStorage s1) of
                   Some SyntaxError \<Rightarrow> consume left s1
                 | Some Falsy \<Rightarrow> consume left s1
                 | Some (Object v5) \<Rightarrow> consume left (migrate_v5 v5 s1)
                 | None \<Rightarrow>
                     (case state_v4 (localStorage s1) of
                        Some (Object lg) \<Rightarrow> consume left (migrate_v4 lg s1)
                      | Some SyntaxError \<Rightarrow> consume left s1
                      | Some Falsy \<Rightarrow> consume left s1
                      | None \<Rightarrow> consume left s1)))
         else s1\<lparr>localStorage := (localStorage s1)\<lparr>state_v6 := None\<rparr>\<rparr>)"

subsection \<open>Events\<close>

text \<open>
  After a handler has set a \<open>useState\<close> cell to a new value, React renders the
  component and runs the effects whose dependencies have changed, before the next event:
  the effect that saves (\<open>[laps, baseElapsed, currentTargetMinutes, reloadsLeft]\<close>) and
  the one that installs the \<open>keydown\<close> listener (\<open>[isRunning, lapsAccumulatedMs]\<close>) with
  the handlers of that render.
\<close>

definition rerender :: "app \<Rightarrow> app \<Rightarrow> bool" where
  "rerender old s \<longleftrightarrow>
     isRunning s \<noteq> isRunning old \<or> baseElapsed s \<noteq> baseElapsed old \<or> tick s \<noteq> tick old \<or>
     lapsId s \<noteq> lapsId old \<or> currentTargetMinutes s \<noteq> currentTargetMinutes old \<or>
     reloadsLeft s \<noteq> reloadsLeft old"

definition commit :: "env \<Rightarrow> app \<Rightarrow> app \<Rightarrow> app" where
  "commit k old s =
     (let s1 = render k old s;
          s2 = (if lapsId s1 \<noteq> lapsId old \<or> baseElapsed s1 \<noteq> baseElapsed old \<or>
                   currentTargetMinutes s1 \<noteq> currentTargetMinutes old \<or>
                   reloadsLeft s1 \<noteq> reloadsLeft old
                then persist s1 s1 else s1)
      in if isRunning s2 \<noteq> isRunning old \<or>
            lapsAccumulatedMs (laps s2) \<noteq> lapsAccumulatedMs (laps old)
         then s2\<lparr>keyClosure := closure_of s2\<rparr> else s2)"

text \<open>
  The events: a call of a handler of the latest render (the buttons' \<open>onClick\<close> and the
  input's \<open>onChange\<close>), a key that \<open>onKey\<close> dispatches with the closure the listener
  holds, and a tick of the 50 ms interval, which runs while \<open>isRunning\<close>.
\<close>

datatype event =
  Start | Pause | Lap | Reset | PresetChange jsstring "number option"
| KeySpace | KeyL | KeyR | Tick

fun dispatch :: "event \<Rightarrow> env \<Rightarrow> app \<Rightarrow> app" where
  "dispatch Start k s = handleStart (closure_of s) (handlerNow k) s"
| "dispatch Pause k s = handlePause (closure_of s) (eagerUpdater k) (handlerNow k) s"
| "dispatch Lap k s = handleLap (closure_of s) (handlerNow k) s"
| "dispatch Reset k s = handleReset (closure_of s) s"
| "dispatch (PresetChange raw v) k s = handlePresetChange raw v s"
| "dispatch KeySpace k s =
     (let c = keyClosure s
      in if c_isRunning c then handlePause c (eagerUpdater k) (handlerNow k) s
         else handleStart c (handlerNow k) s)"
| "dispatch KeyL k s =
     (let c = keyClosure s in if c_isRunning c then handleLap c (handlerNow k) s else s)"
| "dispatch KeyR k s =
     (let c = keyClosure s in if \<not> c_isRunning c then handleReset c s else s)"
| "dispatch Tick k s = (if isRunning s then s\<lparr>tick := tick s + 1\<rparr> else s)"

definition step :: "event \<Rightarrow> env \<Rightarrow> app \<Rightarrow> app" where
  "step e k s = (let s' = dispatch e k s in if rerender s s' then commit k s s' else s')"

fun run :: "(event \<times> env) list \<Rightarrow> app \<Rightarrow> app" where
  "run [] s = s"
| "run ((e, k) # es) s = run es (step e k s)"

text \<open>The states after each event of a run, the one it starts from first.\<close>

fun trace :: "(event \<times> env) list \<Rightarrow> app \<Rightarrow> app list" where
  "trace [] s = [s]"
| "trace ((e, k) # es) s = s # trace es (step e k s)"

subsection \<open>A page load\<close>

text \<open>
  The first render of \<open>App\<close> on a page whose \<open>localStorage\<close> is \<open>st\<close>; then the effects
  of the mount in the order of the source, the one that restores and the one that saves,
  which has the cells of the first render; then the render that the restored cells
  cause.
\<close>

definition initial :: "storage \<Rightarrow> app" where
  "initial st =
     \<lparr>isRunning = False, baseElapsed = 0, tick = 0, laps = [], lapsId = 0,
      currentTargetMinutes = None, reloadsLeft = MAX_RELOADS, startedAtRef = None,
      sessionStartTsRef = None, lapAnchorTsRef = None, activeStartTsRef = None,
      lastPauseTsRef = None, activeTargetMinutesRef = None, prevElapsedRef = 0,
      prevRangeDurRef = 0, rawElapsed = 0, elapsed = 0, hasActive = False,
      activeRow = None, rangeStart = None, rangeEnd = None, rangeDuration = 0,
      displayRangeDuration = 0,
      keyClosure = \<lparr>c_isRunning = False, c_elapsed = 0, c_lapsAccumulatedMs = 0,
                     c_currentTargetMinutes = None\<rparr>,
      localStorage = st\<rparr>"

definition mount :: "env \<Rightarrow> storage \<Rightarrow> app" where
  "mount k st =
     (let s0 = initial st;
          s1 = persist s0 (restore s0)
      in if rerender s0 s1 then commit k s0 s1 else s1)"

definition empty_storage :: storage where
  "empty_storage =
     \<lparr>reloads_left_v6 = None, state_v6 = None, state_v5 = None, state_v4 = None\<rparr>"

section \<open>The exported summary\<close>

text \<open>
  Numbers as text: \<open>n.toString()\<close> and \<open>${n}\<close> for an integer \<open>n\<close>, in decimal digits
  (JavaScript changes to exponent notation from \<open>10^21\<close> on, which no count of minutes,
  hours or laps of a timer comes near).
\<close>

fun digits :: "nat \<Rightarrow> jsstring" where
  "digits n = (if n < 10 then [48 + n] else digits (n div 10) @ [48 + n mod 10])"

declare digits.simps [simp del]

definition int_str :: "int \<Rightarrow> jsstring" where
  "int_str n = (if n < 0 then 45 # digits (nat (- n)) else digits (nat n))"

definition padStart2 :: "jsstring \<Rightarrow> jsstring" where
  "padStart2 s = replicate (2 - length s) 48 @ s"

text \<open>
  \<open>a % b\<close> has the sign of \<open>a\<close>; \<open>Math.round\<close> rounds a half towards \<open>+\<infinity>\<close>.
\<close>

definition js_rem :: "int \<Rightarrow> int \<Rightarrow> int" where
  "js_rem a b = sgn a * (\<bar>a\<bar> mod \<bar>b\<bar>)"

definition js_fmod :: "real \<Rightarrow> real \<Rightarrow> real" where
  "js_fmod x y = x - y * of_int (if x / y < 0 then \<lceil>x / y\<rceil> else \<lfloor>x / y\<rfloor>)"

definition js_round :: "real \<Rightarrow> int" where
  "js_round x = \<lfloor>x + 1 / 2\<rfloor>"

definition msToHMS :: "real \<Rightarrow> jsstring \<times> jsstring \<times> jsstring \<times> jsstring" where
  "msToHMS ms =
     (let totalSeconds = \<lfloor>ms / 1000\<rfloor>;
          h = padStart2 (int_str (totalSeconds div 3600));
          m = padStart2 (int_str (js_rem totalSeconds 3600 div 60));
          s = padStart2 (int_str (js_rem totalSeconds 60));
          cs = padStart2 (int_str \<lfloor>js_fmod ms 1000 / 10\<rfloor>)
      in (h, m, s, cs))"

definition fmtHMS :: "real \<Rightarrow> jsstring" where
  "fmtHMS ms = (case msToHMS ms of (h, m, s, cs) \<Rightarrow> h @ ascii '':'' @ m @ ascii '':'' @ s)"

text \<open>
  \<open>lines.join("\n")\<close>, and the test \<open>if (x)\<close> on a number that may be \<open>null\<close> or
  \<open>undefined\<close>: zero fails it as they do.
\<close>

fun join_nl :: "jsstring list \<Rightarrow> jsstring" where
  "join_nl [] = []"
| "join_nl [l] = l"
| "join_nl (l # ls) = l @ 10 # join_nl ls"

definition truthy :: "real option \<Rightarrow> bool" where
  "truthy x = (case x of None \<Rightarrow> False | Some v \<Rightarrow> v \<noteq> 0)"

text \<open>
  The literals of \<open>buildTextSummary\<close>: the text returned for no lap (U+5C1A U+7121
  U+5340 U+6BB5 U+7D00 U+9304), the two parts of a lap's line after the times
  (U+FF0C U+5171 and a space; a space and U+5206 U+9418), and those of the line of the
  total (U+7E3D U+6642 U+9577 U+FF1A; U+FF08 U+5171 and a space; U+FF09).
\<close>

definition no_laps_text :: jsstring where
  "no_laps_text = [0x5C1A, 0x7121, 0x5340, 0x6BB5, 0x7D00, 0x9304]"

definition lap_line :: "(real \<Rightarrow> jsstring) \<Rightarrow> nat \<Rightarrow> lap \<Rightarrow> jsstring" where
  "lap_line fmtRange idx lap =
     (let mins = js_round (durationMs lap / 60000)
      in int_str (int idx + 1) @ ascii ''. '' @ fmtRange (startTs lap) @ ascii ''~'' @
         fmtRange (endTs lap) @ [0xFF0C, 0x5171, 0x20] @ int_str mins @
         [0x20, 0x5206, 0x9418])"

definition total_line :: "(real \<Rightarrow> jsstring) \<Rightarrow> real \<Rightarrow> real \<Rightarrow> real \<Rightarrow> jsstring" where
  "total_line fmtRange rStart rEnd rDuration =
     [0x7E3D, 0x6642, 0x9577, 0xFF1A] @ fmtRange rStart @ ascii ''~'' @
     fmtRange rEnd @ [0xFF08, 0x5171, 0x20] @ fmtHMS (or_else rDuration 0) @ [0xFF09]"

text \<open>
  \<open>buildTextSummary(lapRows, rangeStart, rangeEnd, rangeDuration)\<close>, its last three
  parameters written \<open>rStart\<close>, \<open>rEnd\<close> and \<open>rDuration\<close>. \<open>fmtRange\<close> is
  \<open>toLocaleTimeString\<close> with two-digit hour and minute, whose text depends on the locale
  of the browser: it is a parameter.
\<close>

definition buildTextSummary ::
  "(real \<Rightarrow> jsstring) \<Rightarrow> lap list \<Rightarrow> real option \<Rightarrow> real option \<Rightarrow> real option \<Rightarrow> jsstring"
where
  "buildTextSummary fmtRange lapRows rStart rEnd rDuration =
     (if lapRows = [] then no_laps_text
      else
        let lines = map (\<lambda>(idx, lap). lap_line fmtRange idx lap) (enumerate 0 lapRows);
            lines' =
              (if truthy rStart \<and> truthy rEnd
               then lines @ [[], total_line fmtRange (nullish rStart 0) (nullish rEnd 0)
                                   (nullish rDuration 0)]
               else lines)
        in join_nl lines')"

text \<open>
  \<open>summaryText\<close>, the export of the component: the completed laps and the range of the
  last render.
\<close>

definition summaryText :: "(real \<Rightarrow> jsstring) \<Rightarrow> app \<Rightarrow> jsstring" where
  "summaryText fmtRange s =
     buildTextSummary fmtRange (laps s) (rangeStart s) (rangeEnd s)
       (Some (displayRangeDuration s))"

section \<open>Sessions\<close>

text \<open>
  The events other than a reset, by the button or by the key \<open>R\<close>.
\<close>

fun no_reset :: "event \<Rightarrow> bool" where
  "no_reset Reset = False"
| "no_reset KeyR = False"
| "no_reset e = True"

text \<open>
  What every state of a session without a reset satisfies: \<open>prevElapsedRef\<close> holds the
  \<open>elapsed\<close> of the last render; the completed laps sum to at most that; the closure of
  the \<open>keydown\<close> listener has the current \<open>isRunning\<close> and \<open>lapsAccumulatedMs\<close> and an
  \<open>elapsed\<close> that is not ahead; a running timer has a session and an open segment; and
  the row of the open segment is there exactly when the segment is, with the duration
  \<open>Math.max(0, elapsed - lapsAccumulatedMs)\<close>.
\<close>

definition inv :: "app \<Rightarrow> bool" where
  "inv s \<longleftrightarrow>
     prevElapsedRef s = elapsed s \<and>
     lapsAccumulatedMs (laps s) \<le> elapsed s \<and>
     c_elapsed (keyClosure s) \<le> elapsed s \<and>
     c_lapsAccumulatedMs (keyClosure s) = lapsAccumulatedMs (laps s) \<and>
     c_isRunning (keyClosure s) = isRunning s \<and>
     hasActive s = (activeStartTsRef s \<noteq> None) \<and>
     (\<not> isRunning s \<or> (activeStartTsRef s \<noteq> None \<and> sessionStartTsRef s \<noteq> None)) \<and>
     (case activeRow s of
        None \<Rightarrow> \<not> hasActive s
      | Some r \<Rightarrow> hasActive s \<and> durationMs r = max 0 (elapsed s - lapsAccumulatedMs (laps s))) \<and>
     (hasActive s \<or> (laps s = [] \<and> elapsed s = 0))"

text \<open>
  A session over several page loads: events, and loads of the page again, which keep
  \<open>localStorage\<close> and nothing else. \<open>allowed\<close> holds of the sessions in which no event is
  a reset and the page is loaded again only while the timer is not running.
\<close>

datatype action = Event event env | Reload env

fun play :: "action list \<Rightarrow> app \<Rightarrow> app" where
  "play [] s = s"
| "play (Event e k # as) s = play as (step e k s)"
| "play (Reload k # as) s = play as (mount k (localStorage s))"

fun allowed :: "action list \<Rightarrow> app \<Rightarrow> bool" where
  "allowed [] s = True"
| "allowed (Event e k # as) s = (no_reset e \<and> allowed as (step e k s))"
| "allowed (Reload k # as) s = (\<not> isRunning s \<and> allowed as (mount k (localStorage s)))"

text \<open>
  What such a session keeps true of the store: the stored count is \<open>reloadsLeft\<close>;
  there is no snapshot of an older format; while \<open>reloadsLeft\<close> is positive the current
  snapshot has the \<open>laps\<close> and the \<open>baseElapsed\<close> of the state, and an open segment unless
  both are empty, and otherwise there is none; the completed laps sum to at most the
  \<open>elapsed\<close> of the \<open>keydown\<close> closure and, when the timer is not running, to at most
  \<open>baseElapsed\<close>; and \<open>baseElapsed\<close> is 0 before the first start.
\<close>

definition saved :: "app \<Rightarrow> bool" where
  "saved s \<longleftrightarrow>
     0 \<le> reloadsLeft s \<and>
     reloads_left_v6 (localStorage s) = Some (Count (reloadsLeft s)) \<and>
     state_v5 (localStorage s) = None \<and> state_v4 (localStorage s) = None \<and>
     (if 0 < reloadsLeft s
      then (case state_v6 (localStorage s) of
              Some (Object p) \<Rightarrow>
                s_laps p = Some (laps s) \<and> s_baseElapsed p = Some (baseElapsed s) \<and>
                (s_activeStartTs p \<noteq> None \<or> (laps s = [] \<and> baseElapsed s = 0))
            | Some SyntaxError \<Rightarrow> False | Some Falsy \<Rightarrow> False | None \<Rightarrow> False)
      else state_v6 (localStorage s) = None) \<and>
     lapsAccumulatedMs (laps s) \<le> c_elapsed (keyClosure s) \<and>
     (isRunning s \<or> lapsAccumulatedMs (laps s) \<le> baseElapsed s) \<and>
     (activeStartTsRef s \<noteq> None \<or> baseElapsed s = 0)"

text \<open>
  What a handler other than the reset leaves as it was or sets, relative to the state
  \<open>s\<close> it was called in.
\<close>

definition handled :: "app \<Rightarrow> app \<Rightarrow> bool" where
  "handled s s' \<longleftrightarrow>
     reloadsLeft s' = reloadsLeft s \<and> localStorage s' = localStorage s \<and>
     keyClosure s' = keyClosure s \<and>
     (lapsId s' \<noteq> lapsId s \<or> laps s' = laps s) \<and>
     (isRunning s' \<or> lapsAccumulatedMs (laps s') \<le> baseElapsed s') \<and>
     (activeStartTsRef s' \<noteq> None \<or> baseElapsed s' = 0) \<and>
     (rerender s s' \<or> s' = s)"

text \<open>
  An instant at which every read of the clock gives \<open>t\<close>, with the updater of
  \<open>handlePause\<close> run at once (\<open>instant_eager\<close>) or in the render (\<open>instant\<close>).
\<close>

definition instant :: "real \<Rightarrow> env" where
  "instant t = \<lparr>handlerNow = t, rawNow = t, activeNow = t, rangeNow = t, eagerUpdater = False\<rparr>"

definition instant_eager :: "real \<Rightarrow> env" where
  "instant_eager t = \<lparr>handlerNow = t, rawNow = t, activeNow = t, rangeNow = t, eagerUpdater = True\<rparr>"

text \<open>
  A stored count that lets a page load restore: positive, or absent or unreadable, when
  the program takes \<open>MAX_RELOADS\<close>.
\<close>

definition eligible :: "storage \<Rightarrow> bool" where
  "eligible st =
     (case reloads_left_v6 st of
        Some (Count n) \<Rightarrow> 0 < n | Some NotANumber \<Rightarrow> True | None \<Rightarrow> True)"

text \<open>
  The lap that the specification gives for a segment of the oldest format: one for a
  segment with a number for \<open>start\<close> and for \<open>end\<close>, with the duration of the pair,
  not below zero, and the target carried over.
\<close>

definition migrated_lap :: "segment \<Rightarrow> lap option" where
  "migrated_lap sg =
     (case seg_start sg of
        None \<Rightarrow> None
      | Some a \<Rightarrow>
          (case seg_end sg of
             None \<Rightarrow> None
           | Some b \<Rightarrow>
               Some \<lparr>startTs = a, endTs = b, durationMs = max 0 (b - a),
                     targetMinutes = seg_targetMinutes sg\<rparr>))"

text \<open>
  A store whose count is 2 and whose current snapshot is a text that \<open>JSON.parse\<close>
  rejects.
\<close>

definition corrupt_storage :: storage where
  "corrupt_storage =
     \<lparr>reloads_left_v6 = Some (Count 2), state_v6 = Some SyntaxError, state_v5 = None,
      state_v4 = None\<rparr>"

text \<open>
  The brackets of ASCII, \<open>s.split("\n")\<close>, and a formatter of times whose texts have
  neither a line feed nor a bracket.
\<close>

definition bracket :: "nat \<Rightarrow> bool" where
  "bracket c \<longleftrightarrow> c = 0x28 \<or> c = 0x29 \<or> c = 0x5B \<or> c = 0x5D \<or> c = 0x7B \<or> c = 0x7D"

fun split_nl :: "jsstring \<Rightarrow> jsstring list" where
  "split_nl [] = [[]]"
| "split_nl (c # cs) =
     (if c = 10 then [] # split_nl cs
      else case split_nl cs of [] \<Rightarrow> [[c]] | l # ls \<Rightarrow> (c # l) # ls)"

definition plain :: "(real \<Rightarrow> jsstring) \<Rightarrow> bool" where
  "plain fmtRange \<longleftrightarrow> (\<forall>t. list_all (\<lambda>c. c \<noteq> 10 \<and> \<not> bracket c) (fmtRange t))"

text \<open>A formatter for examples: the minutes since the epoch, in digits.\<close>

definition minutes_text :: "real \<Rightarrow> jsstring" where
  "minutes_text t = int_str \<lfloor>t / 60000\<rfloor>"

section \<open>Target status and target input\<close>

text \<open>
  C4. With a target recorded, the status is \<open>Exceeded\<close> exactly when the duration is
  greater than \<open>targetMinutes * 60000\<close> and \<open>NotExceeded\<close> exactly when it is at most
  that, so equality is \<open>NotExceeded\<close>; with no target, \<open>undefined\<close> or \<open>NaN\<close>, the
  status is \<open>Unset\<close>.
\<close>

theorem getPresetStatus_classification:
  "(getPresetStatus d (Some (Num t)) = Exceeded \<longleftrightarrow> d > t * 60000) \<and>
   (getPresetStatus d (Some (Num t)) = NotExceeded \<longleftrightarrow> d \<le> t * 60000) \<and>
   getPresetStatus (t * 60000) (Some (Num t)) = NotExceeded \<and>
   getPresetStatus (t * 60000 + 1) (Some (Num t)) = Exceeded \<and>
   getPresetStatus d None = Unset \<and>
   getPresetStatus d (Some NaN) = Unset"
  by (simp add: Let_def)

text \<open>A text of white space only trims to the empty text.\<close>

lemma trim_whitespace_only: "list_all js_whitespace raw \<Longrightarrow> trim raw = []"
proof -
  assume "list_all js_whitespace raw"
  then have "dropWhile js_whitespace raw = []"
    by (simp add: list_all_iff)
  then show ?thesis by (simp add: trim_def del: dropWhile_eq_Nil_conv)
qed

text \<open>
  C10. For a raw text that is not white space only and a value \<open>n\<close> of the input that is
  a number, the target read is \<open>max(0, floor(n))\<close>; whatever the arguments, a target
  that is read is an integer and not negative; and a raw text of white space only gives
  no target.
\<close>

theorem computePresetFromInput_normalizes:
  "(trim raw \<noteq> [] \<longrightarrow>
      computePresetFromInput raw (Some (Num n)) = Some (of_int (max 0 \<lfloor>n\<rfloor>))) \<and>
   (computePresetFromInput raw v = Some t \<longrightarrow> t \<in> \<int> \<and> 0 \<le> t) \<and>
   (list_all js_whitespace raw \<longrightarrow> computePresetFromInput raw v = None)"
  by (auto simp add: computePresetFromInput_def trim_whitespace_only max_def
      split: option.splits number.splits if_splits)

theorem computePresetFromInput_normalizes_witness:
  "trim (ascii ''5.9'') \<noteq> [] \<and>
   computePresetFromInput (ascii ''5.9'') (Some (Num (59 / 10))) = Some 5 \<and>
   computePresetFromInput (ascii ''-3'') (Some (Num (- 3))) = Some 0 \<and>
   list_all js_whitespace (ascii ''   '') \<and>
   computePresetFromInput (ascii ''   '') (Some (Num 7)) = None"
proof -
  have a: "trim (ascii ''5.9'') \<noteq> []" by (simp add: trim_def ascii_def js_whitespace_def)
  have b: "trim (ascii ''-3'') \<noteq> []" by (simp add: trim_def ascii_def js_whitespace_def)
  have c: "list_all js_whitespace (ascii ''   '')" by (simp add: ascii_def js_whitespace_def)
  from a b c computePresetFromInput_normalizes [of "ascii ''5.9''" "59 / 10" "Some (Num (59/10))" 5]
    computePresetFromInput_normalizes [of "ascii ''-3''" "- 3" "Some (Num (- 3))" 0]
    computePresetFromInput_normalizes [of "ascii ''   ''" 7 "Some (Num 7)" 0]
  show ?thesis by simp
qed


section \<open>The timer engine and the lap ledger\<close>

lemma or_else_zero [simp]: "or_else x 0 = x"
  by (simp add: or_else_def)

lemma foldl_durations:
  "foldl (\<lambda>acc l. acc + durationMs l) a ls = a + sum_list (map durationMs ls)"
  by (induction ls arbitrary: a) simp_all

lemma lapsAccumulatedMs_sum: "lapsAccumulatedMs ls = sum_list (map durationMs ls)"
  by (simp add: lapsAccumulatedMs_def foldl_durations)

lemma render_elapsed_frame:
  "isRunning (render_elapsed k old s) = isRunning s"
  "baseElapsed (render_elapsed k old s) = baseElapsed s"
  "tick (render_elapsed k old s) = tick s"
  "laps (render_elapsed k old s) = laps s"
  "lapsId (render_elapsed k old s) = lapsId s"
  "currentTargetMinutes (render_elapsed k old s) = currentTargetMinutes s"
  "reloadsLeft (render_elapsed k old s) = reloadsLeft s"
  "startedAtRef (render_elapsed k old s) = startedAtRef s"
  "sessionStartTsRef (render_elapsed k old s) = sessionStartTsRef s"
  "lapAnchorTsRef (render_elapsed k old s) = lapAnchorTsRef s"
  "activeStartTsRef (render_elapsed k old s) = activeStartTsRef s"
  "lastPauseTsRef (render_elapsed k old s) = lastPauseTsRef s"
  "activeTargetMinutesRef (render_elapsed k old s) = activeTargetMinutesRef s"
  "prevRangeDurRef (render_elapsed k old s) = prevRangeDurRef s"
  "hasActive (render_elapsed k old s) = hasActive s"
  "activeRow (render_elapsed k old s) = activeRow s"
  "keyClosure (render_elapsed k old s) = keyClosure s"
  "localStorage (render_elapsed k old s) = localStorage s"
  by (simp_all add: render_elapsed_def Let_def)

lemma render_activeRow_frame:
  "isRunning (render_activeRow k old s) = isRunning s"
  "baseElapsed (render_activeRow k old s) = baseElapsed s"
  "tick (render_activeRow k old s) = tick s"
  "laps (render_activeRow k old s) = laps s"
  "lapsId (render_activeRow k old s) = lapsId s"
  "currentTargetMinutes (render_activeRow k old s) = currentTargetMinutes s"
  "reloadsLeft (render_activeRow k old s) = reloadsLeft s"
  "startedAtRef (render_activeRow k old s) = startedAtRef s"
  "sessionStartTsRef (render_activeRow k old s) = sessionStartTsRef s"
  "lapAnchorTsRef (render_activeRow k old s) = lapAnchorTsRef s"
  "activeStartTsRef (render_activeRow k old s) = activeStartTsRef s"
  "lastPauseTsRef (render_activeRow k old s) = lastPauseTsRef s"
  "activeTargetMinutesRef (render_activeRow k old s) = activeTargetMinutesRef s"
  "prevElapsedRef (render_activeRow k old s) = prevElapsedRef s"
  "prevRangeDurRef (render_activeRow k old s) = prevRangeDurRef s"
  "rawElapsed (render_activeRow k old s) = rawElapsed s"
  "elapsed (render_activeRow k old s) = elapsed s"
  "keyClosure (render_activeRow k old s) = keyClosure s"
  "localStorage (render_activeRow k old s) = localStorage s"
  "hasActive (render_activeRow k old s) = (activeStartTsRef s \<noteq> None)"
  by (simp_all add: render_activeRow_def Let_def)

lemma render_range_frame:
  "isRunning (render_range k old s) = isRunning s"
  "baseElapsed (render_range k old s) = baseElapsed s"
  "tick (render_range k old s) = tick s"
  "laps (render_range k old s) = laps s"
  "lapsId (render_range k old s) = lapsId s"
  "currentTargetMinutes (render_range k old s) = currentTargetMinutes s"
  "reloadsLeft (render_range k old s) = reloadsLeft s"
  "startedAtRef (render_range k old s) = startedAtRef s"
  "sessionStartTsRef (render_range k old s) = sessionStartTsRef s"
  "lapAnchorTsRef (render_range k old s) = lapAnchorTsRef s"
  "activeStartTsRef (render_range k old s) = activeStartTsRef s"
  "lastPauseTsRef (render_range k old s) = lastPauseTsRef s"
  "activeTargetMinutesRef (render_range k old s) = activeTargetMinutesRef s"
  "prevElapsedRef (render_range k old s) = prevElapsedRef s"
  "rawElapsed (render_range k old s) = rawElapsed s"
  "elapsed (render_range k old s) = elapsed s"
  "hasActive (render_range k old s) = hasActive s"
  "activeRow (render_range k old s) = activeRow s"
  "keyClosure (render_range k old s) = keyClosure s"
  "localStorage (render_range k old s) = localStorage s"
  by (simp_all add: render_range_def Let_def)

lemma persist_frame:
  "isRunning (persist r s) = isRunning s"
  "baseElapsed (persist r s) = baseElapsed s"
  "tick (persist r s) = tick s"
  "laps (persist r s) = laps s"
  "lapsId (persist r s) = lapsId s"
  "currentTargetMinutes (persist r s) = currentTargetMinutes s"
  "reloadsLeft (persist r s) = reloadsLeft s"
  "startedAtRef (persist r s) = startedAtRef s"
  "sessionStartTsRef (persist r s) = sessionStartTsRef s"
  "lapAnchorTsRef (persist r s) = lapAnchorTsRef s"
  "activeStartTsRef (persist r s) = activeStartTsRef s"
  "lastPauseTsRef (persist r s) = lastPauseTsRef s"
  "activeTargetMinutesRef (persist r s) = activeTargetMinutesRef s"
  "prevElapsedRef (persist r s) = prevElapsedRef s"
  "prevRangeDurRef (persist r s) = prevRangeDurRef s"
  "rawElapsed (persist r s) = rawElapsed s"
  "elapsed (persist r s) = elapsed s"
  "hasActive (persist r s) = hasActive s"
  "activeRow (persist r s) = activeRow s"
  "keyClosure (persist r s) = keyClosure s"
  by (simp_all add: persist_def)

lemmas frames = render_elapsed_frame render_activeRow_frame render_range_frame persist_frame

lemma render_elapsed_mono:
  "prevElapsedRef s = elapsed s \<Longrightarrow>
   elapsed s \<le> elapsed (render_elapsed k old s) \<and>
   prevElapsedRef (render_elapsed k old s) = elapsed (render_elapsed k old s)"
  by (simp add: render_elapsed_def Let_def)

lemma render_elapsed_same:
  "isRunning s = isRunning old \<Longrightarrow> baseElapsed s = baseElapsed old \<Longrightarrow> tick s = tick old \<Longrightarrow>
   elapsed (render_elapsed k old s) = elapsed s \<and> prevElapsedRef (render_elapsed k old s) = prevElapsedRef s"
  by (simp add: render_elapsed_def Let_def)

lemma render_activeRow_row:
  "(case activeRow old of
        None \<Rightarrow> \<not> hasActive old
      | Some r \<Rightarrow> hasActive old \<and> durationMs r = max 0 (elapsed old - lapsAccumulatedMs (laps old))) \<Longrightarrow>
   activeRow s = activeRow old \<Longrightarrow>
   (case activeRow (render_activeRow k old s) of
        None \<Rightarrow> activeStartTsRef s = None
      | Some r \<Rightarrow> activeStartTsRef s \<noteq> None \<and> durationMs r = max 0 (elapsed s - lapsAccumulatedMs (laps s)))"
  by (auto simp add: render_activeRow_def Let_def split: option.splits)

lemma commit_frame:
  "isRunning (commit k old s) = isRunning s"
  "baseElapsed (commit k old s) = baseElapsed s"
  "tick (commit k old s) = tick s"
  "laps (commit k old s) = laps s"
  "lapsId (commit k old s) = lapsId s"
  "currentTargetMinutes (commit k old s) = currentTargetMinutes s"
  "reloadsLeft (commit k old s) = reloadsLeft s"
  "startedAtRef (commit k old s) = startedAtRef s"
  "sessionStartTsRef (commit k old s) = sessionStartTsRef s"
  "lapAnchorTsRef (commit k old s) = lapAnchorTsRef s"
  "activeStartTsRef (commit k old s) = activeStartTsRef s"
  "lastPauseTsRef (commit k old s) = lastPauseTsRef s"
  "activeTargetMinutesRef (commit k old s) = activeTargetMinutesRef s"
  "elapsed (commit k old s) = elapsed (render_elapsed k old s)"
  "prevElapsedRef (commit k old s) = prevElapsedRef (render_elapsed k old s)"
  "hasActive (commit k old s) = (activeStartTsRef s \<noteq> None)"
  "activeRow (commit k old s) = activeRow (render_activeRow k old (render_elapsed k old s))"
  by (simp_all add: commit_def render_def Let_def frames)

lemma commit_keyClosure:
  "keyClosure (commit k old s) =
     (if isRunning s \<noteq> isRunning old \<or> lapsAccumulatedMs (laps s) \<noteq> lapsAccumulatedMs (laps old)
      then \<lparr>c_isRunning = isRunning s, c_elapsed = elapsed (render_elapsed k old s),
            c_lapsAccumulatedMs = lapsAccumulatedMs (laps s),
            c_currentTargetMinutes = currentTargetMinutes s\<rparr>
      else keyClosure s)"
  by (simp add: commit_def render_def Let_def frames closure_of_def)

text \<open>What a handler leaves to the render: it writes no memo cell.\<close>

lemma commit_inv_gen:
  assumes "inv old"
    and "prevElapsedRef s = prevElapsedRef old" "elapsed s = elapsed old"
    and "activeRow s = activeRow old" "keyClosure s = keyClosure old"
    and "lapsAccumulatedMs (laps s) \<le> elapsed (render_elapsed k old s)"
    and "\<not> isRunning s \<or> (activeStartTsRef s \<noteq> None \<and> sessionStartTsRef s \<noteq> None)"
    and "activeStartTsRef s \<noteq> None \<or> (activeStartTsRef old = None \<and> laps s = [] \<and> isRunning s = isRunning old \<and> baseElapsed s = baseElapsed old \<and> tick s = tick old)"
  shows "inv (commit k old s)"
proof -
  let ?t = "commit k old s"
  from assms have pe: "prevElapsedRef s = elapsed s" by (simp add: inv_def)
  note m = render_elapsed_mono [OF pe, of k old]
  from assms(1) have row: "(case activeRow old of
        None \<Rightarrow> \<not> hasActive old
      | Some r \<Rightarrow> hasActive old \<and> durationMs r = max 0 (elapsed old - lapsAccumulatedMs (laps old)))"
    by (simp add: inv_def)
  have ar: "activeRow (render_elapsed k old s) = activeRow old"
    using assms by (simp add: frames)
  note r = render_activeRow_row [OF row ar, of k]
  have c1: "prevElapsedRef ?t = elapsed ?t"
    using m by (simp add: commit_frame)
  have c2: "lapsAccumulatedMs (laps ?t) \<le> elapsed ?t"
    using assms(6) by (simp add: commit_frame)
  have c3: "c_elapsed (keyClosure ?t) \<le> elapsed ?t"
    using m assms(1,3,5) by (simp add: commit_frame commit_keyClosure inv_def)
  have c4: "c_lapsAccumulatedMs (keyClosure ?t) = lapsAccumulatedMs (laps ?t)"
    using assms(1,5) by (simp add: commit_frame commit_keyClosure inv_def)
  have c5: "c_isRunning (keyClosure ?t) = isRunning ?t"
    using assms(1,5) by (simp add: commit_frame commit_keyClosure inv_def)
  have c6: "hasActive ?t = (activeStartTsRef ?t \<noteq> None)"
    by (simp add: commit_frame)
  have c7: "\<not> isRunning ?t \<or> (activeStartTsRef ?t \<noteq> None \<and> sessionStartTsRef ?t \<noteq> None)"
    using assms(7) by (simp add: commit_frame)
  have c8: "(case activeRow ?t of
        None \<Rightarrow> \<not> hasActive ?t
      | Some r \<Rightarrow> hasActive ?t \<and> durationMs r = max 0 (elapsed ?t - lapsAccumulatedMs (laps ?t)))"
    using r by (simp add: commit_frame frames split: option.splits)
  have c9: "hasActive ?t \<or> (laps ?t = [] \<and> elapsed ?t = 0)"
  proof (cases "activeStartTsRef s")
    case None
    with assms(8) have same: "activeStartTsRef old = None" "laps s = []"
      "isRunning s = isRunning old" "baseElapsed s = baseElapsed old" "tick s = tick old"
      by simp_all
    from same(1) assms(1) have "elapsed old = 0" by (auto simp add: inv_def)
    with same render_elapsed_same [OF same(3,4,5), of k] assms(3) show ?thesis
      by (simp add: commit_frame)
  next
    case (Some a)
    then show ?thesis by (simp add: commit_frame)
  qed
  show ?thesis
    unfolding inv_def using c1 c2 c3 c4 c5 c6 c7 c8 c9 by blast
qed

lemma commit_inv:
  assumes "inv old"
    and "prevElapsedRef s = prevElapsedRef old" "elapsed s = elapsed old"
    and "activeRow s = activeRow old" "keyClosure s = keyClosure old"
    and "lapsAccumulatedMs (laps s) \<le> elapsed old"
    and "\<not> isRunning s \<or> (activeStartTsRef s \<noteq> None \<and> sessionStartTsRef s \<noteq> None)"
    and "activeStartTsRef s \<noteq> None \<or> (activeStartTsRef old = None \<and> laps s = [] \<and> isRunning s = isRunning old \<and> baseElapsed s = baseElapsed old \<and> tick s = tick old)"
  shows "inv (commit k old s)"
proof -
  from assms have pe: "prevElapsedRef s = elapsed s" by (simp add: inv_def)
  from render_elapsed_mono [OF pe, of k old] assms(3,6)
  have "lapsAccumulatedMs (laps s) \<le> elapsed (render_elapsed k old s)" by simp
  from commit_inv_gen [OF assms(1-5) this assms(7,8)] show ?thesis .
qed

lemma lapsAccumulatedMs_snoc:
  "lapsAccumulatedMs (ls @ [l]) = lapsAccumulatedMs ls + durationMs l"
  by (simp add: lapsAccumulatedMs_sum)

lemma handleStart_inv:
  assumes "inv s" and "c_isRunning c = isRunning s"
  shows "inv (let s' = handleStart c now s in if rerender s s' then commit k s s' else s')"
proof (cases "isRunning s")
  case True
  with assms show ?thesis by (simp add: handleStart_def rerender_def)
next
  case False
  let ?s' = "handleStart c now s"
  from False assms(2) have rr: "rerender s ?s'"
    by (simp add: handleStart_def rerender_def Let_def)
  have "inv (commit k s ?s')"
  proof (rule commit_inv [OF assms(1)])
    show "lapsAccumulatedMs (laps ?s') \<le> elapsed s"
      using assms by (simp add: handleStart_def Let_def inv_def)
  qed (use False assms(2) in \<open>auto simp add: handleStart_def Let_def\<close>)
  with rr show ?thesis by (simp add: Let_def)
qed

lemma handlePause_inv:
  assumes "inv s" and "c_isRunning c = isRunning s"
  shows "inv (let s' = handlePause c eager now s in if rerender s s' then commit k s s' else s')"
proof (cases "isRunning s")
  case False
  with assms show ?thesis by (simp add: handlePause_def rerender_def)
next
  case True
  let ?s' = "handlePause c eager now s"
  from True assms(2) have rr: "rerender s ?s'"
    by (simp add: handlePause_def rerender_def Let_def)
  have "inv (commit k s ?s')"
  proof (rule commit_inv [OF assms(1)])
    show "lapsAccumulatedMs (laps ?s') \<le> elapsed s"
      using assms by (simp add: handlePause_def Let_def inv_def)
    show "activeStartTsRef ?s' \<noteq> None \<or>
      activeStartTsRef s = None \<and> laps ?s' = [] \<and> isRunning ?s' = isRunning s \<and>
      baseElapsed ?s' = baseElapsed s \<and> tick ?s' = tick s"
      using True assms by (auto simp add: handlePause_def Let_def inv_def)
  qed (use True assms(2) in \<open>auto simp add: handlePause_def Let_def\<close>)
  with rr show ?thesis by (simp add: Let_def)
qed

lemma handleLap_inv:
  assumes "inv s" and "c_isRunning c = isRunning s" and "c_elapsed c \<le> elapsed s"
    and "c_lapsAccumulatedMs c = lapsAccumulatedMs (laps s)"
  shows "inv (let s' = handleLap c now s in if rerender s s' then commit k s s' else s')"
proof (cases "isRunning s \<and> sessionStartTsRef s \<noteq> None")
  case False
  with assms show ?thesis by (auto simp add: handleLap_def rerender_def)
next
  case True
  let ?s' = "handleLap c now s"
  from True assms(2) have rr: "rerender s ?s'"
    by (auto simp add: handleLap_def rerender_def Let_def)
  have "inv (commit k s ?s')"
  proof (rule commit_inv [OF assms(1)])
    show "lapsAccumulatedMs (laps ?s') \<le> elapsed s"
      using True assms by (auto simp add: handleLap_def Let_def inv_def lapsAccumulatedMs_snoc)
  qed (use True assms(2) in \<open>auto simp add: handleLap_def Let_def\<close>)
  with rr show ?thesis by (simp add: Let_def)
qed

lemma handlePresetChange_inv:
  assumes "inv s"
  shows "inv (let s' = handlePresetChange raw v s in if rerender s s' then commit k s s' else s')"
proof (cases "computePresetFromInput raw v = currentTargetMinutes s")
  case True
  then have "handlePresetChange raw v s = s" by (simp add: handlePresetChange_def)
  with assms show ?thesis by (simp add: rerender_def)
next
  case False
  let ?s' = "handlePresetChange raw v s"
  from False have rr: "rerender s ?s'"
    by (auto simp add: handlePresetChange_def rerender_def)
  have "inv (commit k s ?s')"
  proof (rule commit_inv [OF assms(1)])
    show "lapsAccumulatedMs (laps ?s') \<le> elapsed s"
      using assms by (simp add: handlePresetChange_def inv_def)
    show "\<not> isRunning ?s' \<or> activeStartTsRef ?s' \<noteq> None \<and> sessionStartTsRef ?s' \<noteq> None"
      using assms by (simp add: handlePresetChange_def inv_def)
    show "activeStartTsRef ?s' \<noteq> None \<or>
      activeStartTsRef s = None \<and> laps ?s' = [] \<and> isRunning ?s' = isRunning s \<and>
      baseElapsed ?s' = baseElapsed s \<and> tick ?s' = tick s"
      using assms by (auto simp add: handlePresetChange_def inv_def)
  qed (simp_all add: handlePresetChange_def)
  with rr show ?thesis by (simp add: Let_def)
qed

lemma tick_inv:
  assumes "inv s"
  shows "inv (let s' = dispatch Tick k s in if rerender s s' then commit k s s' else s')"
proof (cases "isRunning s")
  case False
  with assms show ?thesis by (simp add: rerender_def)
next
  case True
  let ?s' = "dispatch Tick k s"
  from True have rr: "rerender s ?s'" by (simp add: rerender_def)
  have "inv (commit k s ?s')"
  proof (rule commit_inv [OF assms(1)])
    show "lapsAccumulatedMs (laps ?s') \<le> elapsed s"
      using True assms by (simp add: inv_def)
    show "\<not> isRunning ?s' \<or> activeStartTsRef ?s' \<noteq> None \<and> sessionStartTsRef ?s' \<noteq> None"
      using True assms by (simp add: inv_def)
    show "activeStartTsRef ?s' \<noteq> None \<or>
      activeStartTsRef s = None \<and> laps ?s' = [] \<and> isRunning ?s' = isRunning s \<and>
      baseElapsed ?s' = baseElapsed s \<and> tick ?s' = tick s"
      using True assms by (auto simp add: inv_def)
  qed (use True in simp_all)
  with rr show ?thesis by (simp add: Let_def)
qed

lemma closure_of_inv:
  "c_isRunning (closure_of s) = isRunning s" "c_elapsed (closure_of s) = elapsed s"
  "c_lapsAccumulatedMs (closure_of s) = lapsAccumulatedMs (laps s)"
  by (simp_all add: closure_of_def)

lemma step_inv:
  assumes "inv s" and "no_reset e"
  shows "inv (step e k s)"
proof (cases e)
  case Start
  with handleStart_inv [OF assms(1), of "closure_of s" "handlerNow k" k] show ?thesis
    by (simp add: step_def closure_of_inv)
next
  case Pause
  with handlePause_inv [OF assms(1), of "closure_of s" "eagerUpdater k" "handlerNow k" k] show ?thesis
    by (simp add: step_def closure_of_inv)
next
  case Lap
  with handleLap_inv [OF assms(1), of "closure_of s" "handlerNow k" k] show ?thesis
    by (simp add: step_def closure_of_inv)
next
  case Reset
  with assms(2) show ?thesis by simp
next
  case (PresetChange raw v)
  with handlePresetChange_inv [OF assms(1), of raw v k] show ?thesis
    by (simp add: step_def)
next
  case KeySpace
  from assms(1) have kc: "c_isRunning (keyClosure s) = isRunning s" by (simp add: inv_def)
  show ?thesis
  proof (cases "isRunning s")
    case True
    with KeySpace kc handlePause_inv [OF assms(1) kc, of "eagerUpdater k" "handlerNow k" k] show ?thesis
      by (simp add: step_def)
  next
    case False
    with KeySpace kc handleStart_inv [OF assms(1) kc, of "handlerNow k" k] show ?thesis
      by (simp add: step_def)
  qed
next
  case KeyL
  from assms(1) have kc: "c_isRunning (keyClosure s) = isRunning s"
    "c_elapsed (keyClosure s) \<le> elapsed s"
    "c_lapsAccumulatedMs (keyClosure s) = lapsAccumulatedMs (laps s)" by (simp_all add: inv_def)
  show ?thesis
  proof (cases "isRunning s")
    case True
    with KeyL kc handleLap_inv [OF assms(1) kc, of "handlerNow k" k] show ?thesis
      by (simp add: step_def)
  next
    case False
    with KeyL kc assms(1) show ?thesis
      by (simp add: step_def rerender_def)
  qed
next
  case KeyR
  with assms(2) show ?thesis by simp
next
  case Tick
  with tick_inv [OF assms(1), of k] show ?thesis
    by (simp add: step_def)
qed


lemma mount_empty_inv: "inv (mount k empty_storage)"
  by (simp add: mount_def initial_def empty_storage_def restore_def consume_def persist_def
      rerender_def MAX_RELOADS_def Let_def commit_def render_def render_elapsed_def
      render_activeRow_def render_range_def closure_of_def inv_def lapsAccumulatedMs_def)

lemma run_inv: "inv s \<Longrightarrow> list_all (\<lambda>(e, k). no_reset e) es \<Longrightarrow> inv (run es s)"
  by (induction es arbitrary: s) (auto simp add: step_inv)

text \<open>
  The definitions that a run on given events unfolds to.
\<close>

lemmas model_defs = mount_def initial_def empty_storage_def restore_def consume_def persist_def
  rerender_def MAX_RELOADS_def Let_def commit_def render_def render_elapsed_def
  render_activeRow_def render_range_def closure_of_def lapsAccumulatedMs_def
  step_def handleStart_def handlePause_def handleLap_def handleReset_def
  handlePresetChange_def nullish_def or_else_def instant_def instant_eager_def
  resetReloadBudget_def

subsection \<open>Reads of the elapsed time\<close>

lemma restore_v6_keeps:
  "prevElapsedRef (restore_v6 p s) = prevElapsedRef s" "elapsed (restore_v6 p s) = elapsed s"
  by (simp_all add: restore_v6_def Let_def split: option.splits)

lemma migrate_v5_keeps:
  "prevElapsedRef (migrate_v5 p s) = prevElapsedRef s" "elapsed (migrate_v5 p s) = elapsed s"
  by (simp_all add: migrate_v5_def Let_def split: option.splits)

lemma migrate_v4_keeps:
  "prevElapsedRef (migrate_v4 p s) = prevElapsedRef s" "elapsed (migrate_v4 p s) = elapsed s"
  by (simp_all add: migrate_v4_def Let_def split: option.splits)

lemma consume_keeps:
  "prevElapsedRef (consume n s) = prevElapsedRef s" "elapsed (consume n s) = elapsed s"
  by (simp_all add: consume_def Let_def)

lemma restore_keeps:
  "prevElapsedRef (restore s) = prevElapsedRef s" "elapsed (restore s) = elapsed s"
  by (simp_all add: restore_def Let_def restore_v6_keeps migrate_v5_keeps migrate_v4_keeps
      consume_keeps split: option.splits parsed.splits counter_text.splits)

lemma mount_prevElapsed: "prevElapsedRef (mount k st) = elapsed (mount k st)"
proof -
  let ?s1 = "persist (initial st) (restore (initial st))"
  have p: "prevElapsedRef ?s1 = elapsed ?s1"
    by (simp add: frames restore_keeps) (simp add: initial_def)
  show ?thesis
    using p render_elapsed_mono [OF p, of k "initial st"]
    by (simp add: mount_def Let_def commit_frame)
qed

lemma dispatch_keeps_elapsed:
  "no_reset e \<Longrightarrow>
   prevElapsedRef (dispatch e k s) = prevElapsedRef s \<and> elapsed (dispatch e k s) = elapsed s"
  by (cases e)
    (simp_all add: handleStart_def handlePause_def handleLap_def handlePresetChange_def Let_def)

lemma step_elapsed:
  assumes "prevElapsedRef s = elapsed s" and "no_reset e"
  shows "elapsed s \<le> elapsed (step e k s) \<and>
         prevElapsedRef (step e k s) = elapsed (step e k s)"
proof -
  let ?s' = "dispatch e k s"
  from assms dispatch_keeps_elapsed [OF assms(2), of k s]
  have p: "prevElapsedRef ?s' = elapsed ?s'" and e: "elapsed ?s' = elapsed s" by simp_all
  from render_elapsed_mono [OF p, of k s] p e show ?thesis
    by (simp add: step_def Let_def commit_frame)
qed

lemma trace_elapsed:
  "prevElapsedRef s = elapsed s \<Longrightarrow> list_all (\<lambda>(e, k). no_reset e) es \<Longrightarrow>
   sorted (map elapsed (trace es s)) \<and> (\<forall>t \<in> set (trace es s). elapsed s \<le> elapsed t)"
proof (induction es arbitrary: s)
  case Nil
  then show ?case by simp
next
  case (Cons ek es)
  obtain e k where ek: "ek = (e, k)" by (cases ek)
  with Cons.prems have nr: "no_reset e" and rest: "list_all (\<lambda>(e, k). no_reset e) es"
    by simp_all
  from step_elapsed [OF Cons.prems(1) nr, of k]
  have le: "elapsed s \<le> elapsed (step e k s)"
    and p: "prevElapsedRef (step e k s) = elapsed (step e k s)" by simp_all
  from Cons.IH [OF p rest] le ek show ?case by fastforce
qed

text \<open>
  C3. Through any starts, pauses, resumes, lap cuts, ticks and changes of the target
  after any page load, with any readings of the clock at all, later ones before earlier
  ones too, the \<open>elapsed\<close> of each render is at least that of the render before.
\<close>

theorem elapsed_monotone:
  "list_all (\<lambda>(e, k). no_reset e) es \<Longrightarrow> sorted (map elapsed (trace es (mount k st)))"
  using trace_elapsed [OF mount_prevElapsed] by blast

text \<open>
  A run whose clock goes back twice: from 2000 to 1500 while running, and to 4000 after
  a resume at 5000.
\<close>

theorem elapsed_monotone_witness:
  "list_all (\<lambda>(e, k). no_reset e)
     [(Start, instant 1000), (Tick, instant 2000), (Tick, instant 1500),
      (Pause, instant_eager 1200), (KeySpace, instant 5000), (Tick, instant 4000),
      (Tick, instant 7000)] \<and>
   sorted (map elapsed (trace
     [(Start, instant 1000), (Tick, instant 2000), (Tick, instant 1500),
      (Pause, instant_eager 1200), (KeySpace, instant 5000), (Tick, instant 4000),
      (Tick, instant 7000)] (mount (instant 0) empty_storage))) \<and>
   map elapsed (trace
     [(Start, instant 1000), (Tick, instant 2000), (Tick, instant 1500),
      (Pause, instant_eager 1200), (KeySpace, instant 5000), (Tick, instant 4000),
      (Tick, instant 7000)] (mount (instant 0) empty_storage)) =
     [0, 0, 1000, 1000, 1000, 1000, 1000, 3000]"
  using elapsed_monotone [of "[(Start, instant 1000), (Tick, instant 2000), (Tick, instant 1500),
      (Pause, instant_eager 1200), (KeySpace, instant 5000), (Tick, instant 4000),
      (Tick, instant 7000)]" "instant 0" empty_storage]
  by (simp add: model_defs)

subsection \<open>Transitions that are refused\<close>

text \<open>
  C7. A start while running, a reset while running, a pause while not running, and a
  lap cut while not running or before a session has started return the state they were
  given, \<open>localStorage\<close> included: the handlers for any closure, and the events of the
  buttons and of the keys.
\<close>

theorem illegal_transitions_noop:
  "(c_isRunning c \<longrightarrow> handleStart c now s = s \<and> handleReset c s = s) \<and>
   (\<not> c_isRunning c \<or> sessionStartTsRef s = None \<longrightarrow> handleLap c now s = s) \<and>
   (\<not> c_isRunning c \<longrightarrow> handlePause c eager now s = s) \<and>
   (isRunning s \<longrightarrow> step Start k s = s \<and> step Reset k s = s) \<and>
   (\<not> isRunning s \<or> sessionStartTsRef s = None \<longrightarrow> step Lap k s = s) \<and>
   (\<not> isRunning s \<longrightarrow> step Pause k s = s) \<and>
   (\<not> c_isRunning (keyClosure s) \<longrightarrow> step KeyL k s = s) \<and>
   (c_isRunning (keyClosure s) \<longrightarrow> step KeyR k s = s)"
  by (auto simp add: handleStart_def handleReset_def handleLap_def handlePause_def step_def
      closure_of_def rerender_def)


text \<open>At a running timer, and at one that has never started.\<close>

theorem illegal_transitions_noop_witness:
  "isRunning (run [(Start, instant 0)] (mount (instant 0) empty_storage)) \<and>
   step Start (instant 5) (run [(Start, instant 0)] (mount (instant 0) empty_storage)) =
     run [(Start, instant 0)] (mount (instant 0) empty_storage) \<and>
   step Reset (instant 5) (run [(Start, instant 0)] (mount (instant 0) empty_storage)) =
     run [(Start, instant 0)] (mount (instant 0) empty_storage) \<and>
   \<not> isRunning (mount (instant 0) empty_storage) \<and>
   sessionStartTsRef (mount (instant 0) empty_storage) = None \<and>
   step Lap (instant 5) (mount (instant 0) empty_storage) = mount (instant 0) empty_storage \<and>
   step Pause (instant 5) (mount (instant 0) empty_storage) = mount (instant 0) empty_storage \<and>
   \<not> c_isRunning (keyClosure (mount (instant 0) empty_storage)) \<and>
   step KeyL (instant 5) (mount (instant 0) empty_storage) = mount (instant 0) empty_storage"
proof -
  let ?run = "run [(Start, instant 0)] (mount (instant 0) empty_storage)"
  let ?idle = "mount (instant 0) empty_storage"
  have r: "isRunning ?run" by (simp add: model_defs)
  have i: "\<not> isRunning ?idle" "sessionStartTsRef ?idle = None" "\<not> c_isRunning (keyClosure ?idle)"
    by (simp_all add: model_defs)
  from r i illegal_transitions_noop [of "closure_of ?run" "5" ?run True "instant 5"]
    illegal_transitions_noop [of "closure_of ?idle" "5" ?idle True "instant 5"]
  show ?thesis by blast
qed


subsection \<open>The target of the open segment\<close>

text \<open>
  A change of the pending target leaves the target locked for the open segment and the
  completed laps as they are, in every state, and sets the pending target. The lap cut
  after it by the button records the target that was locked before and locks the new
  pending one; a first start after it by the button locks the new pending one; a pause,
  a tick and a resume do not touch the lock.
\<close>

lemma target_lock_frame:
  "activeTargetMinutesRef (step (PresetChange raw v) k s) = activeTargetMinutesRef s \<and>
   laps (step (PresetChange raw v) k s) = laps s \<and>
   currentTargetMinutes (step (PresetChange raw v) k s) = computePresetFromInput raw v \<and>
   (isRunning s \<and> sessionStartTsRef s \<noteq> None \<longrightarrow>
      (\<exists>l. laps (step Lap k' (step (PresetChange raw v) k s)) = laps s @ [l] \<and>
           targetMinutes l = activeTargetMinutesRef s) \<and>
      activeTargetMinutesRef (step Lap k' (step (PresetChange raw v) k s)) =
        computePresetFromInput raw v) \<and>
   (\<not> isRunning s \<and> sessionStartTsRef s = None \<longrightarrow>
      activeTargetMinutesRef (step Start k' (step (PresetChange raw v) k s)) =
        computePresetFromInput raw v) \<and>
   (e = Pause \<or> e = Tick \<or> e = Start \<and> sessionStartTsRef s \<noteq> None \<longrightarrow>
      activeTargetMinutesRef (step e k s) = activeTargetMinutesRef s)"
proof -
  let ?p = "step (PresetChange raw v) k s"
  have p: "activeTargetMinutesRef ?p = activeTargetMinutesRef s" "laps ?p = laps s"
    "currentTargetMinutes ?p = computePresetFromInput raw v"
    "isRunning ?p = isRunning s" "sessionStartTsRef ?p = sessionStartTsRef s"
    by (simp_all add: step_def handlePresetChange_def Let_def commit_frame)
  have lap: "isRunning s \<and> sessionStartTsRef s \<noteq> None \<Longrightarrow>
      (\<exists>l. laps (step Lap k' ?p) = laps s @ [l] \<and> targetMinutes l = activeTargetMinutesRef s) \<and>
      activeTargetMinutesRef (step Lap k' ?p) = computePresetFromInput raw v"
    using p by (simp add: step_def handleLap_def Let_def commit_frame closure_of_def rerender_def)
  have start: "\<not> isRunning s \<and> sessionStartTsRef s = None \<Longrightarrow>
      activeTargetMinutesRef (step Start k' ?p) = computePresetFromInput raw v"
    using p by (simp add: step_def handleStart_def Let_def commit_frame closure_of_def rerender_def)
  have other: "e = Pause \<or> e = Tick \<or> e = Start \<and> sessionStartTsRef s \<noteq> None \<Longrightarrow>
      activeTargetMinutesRef (step e k s) = activeTargetMinutesRef s"
    by (auto simp add: step_def handleStart_def handlePause_def Let_def commit_frame)
  from p lap start other show ?thesis by blast
qed

text \<open>
  A target of 60 entered before the start, and changed to 30 while the first segment
  is open.
\<close>

lemma target_lock_frame_example:
  "isRunning (run [(PresetChange (ascii ''60'') (Some (Num 60)), instant 0),
                   (Start, instant 0), (Tick, instant 1000)]
                (mount (instant 0) empty_storage)) \<and>
   sessionStartTsRef (run [(PresetChange (ascii ''60'') (Some (Num 60)), instant 0),
                           (Start, instant 0), (Tick, instant 1000)]
                        (mount (instant 0) empty_storage)) = Some 0 \<and>
   activeTargetMinutesRef
     (step (PresetChange (ascii ''30'') (Some (Num 30))) (instant 2000)
        (run [(PresetChange (ascii ''60'') (Some (Num 60)), instant 0),
              (Start, instant 0), (Tick, instant 1000)]
           (mount (instant 0) empty_storage))) = Some 60 \<and>
   map targetMinutes (laps
     (step Lap (instant 3000)
        (step (PresetChange (ascii ''30'') (Some (Num 30))) (instant 2000)
           (run [(PresetChange (ascii ''60'') (Some (Num 60)), instant 0),
                 (Start, instant 0), (Tick, instant 1000)]
              (mount (instant 0) empty_storage))))) = [Some 60] \<and>
   activeTargetMinutesRef
     (step Lap (instant 3000)
        (step (PresetChange (ascii ''30'') (Some (Num 30))) (instant 2000)
           (run [(PresetChange (ascii ''60'') (Some (Num 60)), instant 0),
                 (Start, instant 0), (Tick, instant 1000)]
              (mount (instant 0) empty_storage)))) = Some 30 \<and>
   \<not> isRunning (mount (instant 0) empty_storage) \<and>
   sessionStartTsRef (mount (instant 0) empty_storage) = None \<and>
   activeTargetMinutesRef
     (step Start (instant 10)
        (step (PresetChange (ascii ''60'') (Some (Num 60))) (instant 0)
           (mount (instant 0) empty_storage))) = Some 60"
  using target_lock_frame [of "ascii ''30''" "Some (Num 30)" "instant 2000"
      "run [(PresetChange (ascii ''60'') (Some (Num 60)), instant 0),
            (Start, instant 0), (Tick, instant 1000)] (mount (instant 0) empty_storage)"
      "instant 3000" Pause]
    target_lock_frame [of "ascii ''60''" "Some (Num 60)" "instant 0"
      "mount (instant 0) empty_storage" "instant 10" Tick]
  by (simp add: model_defs computePresetFromInput_def trim_def ascii_def js_whitespace_def)

text \<open>
  C5. By the keys the pending target is not the one that is locked. The \<open>keydown\<close>
  listener is installed again only when \<open>isRunning\<close> or \<open>lapsAccumulatedMs\<close> changes,
  so its \<open>handleStart\<close> and \<open>handleLap\<close> have the \<open>currentTargetMinutes\<close> of that
  render: with 60 entered on a fresh page, the start by the space key locks no target
  for the first lap, where the start by the button locks 60; and with the target changed
  from 60 to 30 while the first segment is open, the cut by the key \<open>L\<close> locks 60 for
  the next segment, where the cut by the button locks 30.
\<close>

theorem key_locks_captured_target:
  "currentTargetMinutes
     (run [(PresetChange (ascii ''60'') (Some (Num 60)), instant 0)]
        (mount (instant 0) empty_storage)) = Some 60 \<and>
   activeTargetMinutesRef
     (run [(PresetChange (ascii ''60'') (Some (Num 60)), instant 0), (KeySpace, instant 1000)]
        (mount (instant 0) empty_storage)) = None \<and>
   activeTargetMinutesRef
     (run [(PresetChange (ascii ''60'') (Some (Num 60)), instant 0), (Start, instant 1000)]
        (mount (instant 0) empty_storage)) = Some 60 \<and>
   currentTargetMinutes
     (run [(PresetChange (ascii ''60'') (Some (Num 60)), instant 0), (Start, instant 1000),
           (Tick, instant 2000), (PresetChange (ascii ''30'') (Some (Num 30)), instant 3000),
           (KeyL, instant 4000)]
        (mount (instant 0) empty_storage)) = Some 30 \<and>
   activeTargetMinutesRef
     (run [(PresetChange (ascii ''60'') (Some (Num 60)), instant 0), (Start, instant 1000),
           (Tick, instant 2000), (PresetChange (ascii ''30'') (Some (Num 30)), instant 3000),
           (KeyL, instant 4000)]
        (mount (instant 0) empty_storage)) = Some 60 \<and>
   activeTargetMinutesRef
     (run [(PresetChange (ascii ''60'') (Some (Num 60)), instant 0), (Start, instant 1000),
           (Tick, instant 2000), (PresetChange (ascii ''30'') (Some (Num 30)), instant 3000),
           (Lap, instant 4000)]
        (mount (instant 0) empty_storage)) = Some 30"
  by (simp add: model_defs computePresetFromInput_def trim_def ascii_def js_whitespace_def)

section \<open>Saving and restoring\<close>

lemma commit_storage:
  "localStorage (commit k old s) =
     (if lapsId s \<noteq> lapsId old \<or> baseElapsed s \<noteq> baseElapsed old \<or>
         currentTargetMinutes s \<noteq> currentTargetMinutes old \<or> reloadsLeft s \<noteq> reloadsLeft old
      then localStorage (persist s s) else localStorage s)"
  by (simp add: commit_def render_def Let_def frames persist_def)

lemma persist_counter:
  "reloads_left_v6 (localStorage (persist r s)) = reloads_left_v6 (localStorage s)"
  by (simp add: persist_def)

lemma mount_frame:
  "laps (mount k st) = laps (restore (initial st))"
  "baseElapsed (mount k st) = baseElapsed (restore (initial st))"
  "reloadsLeft (mount k st) = reloadsLeft (restore (initial st))"
  "currentTargetMinutes (mount k st) = currentTargetMinutes (restore (initial st))"
  "sessionStartTsRef (mount k st) = sessionStartTsRef (restore (initial st))"
  "lapAnchorTsRef (mount k st) = lapAnchorTsRef (restore (initial st))"
  "activeStartTsRef (mount k st) = activeStartTsRef (restore (initial st))"
  "lastPauseTsRef (mount k st) = lastPauseTsRef (restore (initial st))"
  "activeTargetMinutesRef (mount k st) = activeTargetMinutesRef (restore (initial st))"
  "isRunning (mount k st) = isRunning (restore (initial st))"
  "reloads_left_v6 (localStorage (mount k st)) =
     reloads_left_v6 (localStorage (restore (initial st)))"
  by (simp_all add: mount_def Let_def commit_frame frames commit_storage persist_counter)

lemma restore_eligible_v6:
  assumes "eligible st" and "state_v6 st = Some (Object p)"
  shows "laps (restore (initial st)) = (case s_laps p of Some ls \<Rightarrow> ls | None \<Rightarrow> [])"
  using assms
  by (simp add: restore_def eligible_def initial_def MAX_RELOADS_def consume_def restore_v6_def
      Let_def split: option.splits counter_text.splits)

text \<open>
  C6. A state saved while \<open>reloadsLeft\<close> is positive and loaded from a store whose
  count lets the load restore gives back the laps it had: as many, with the same
  \<open>startTs\<close>, \<open>endTs\<close>, \<open>durationMs\<close> and \<open>targetMinutes\<close>.
\<close>

theorem persist_restore_roundtrip:
  assumes "0 < reloadsLeft s" and "state_v6 st = state_v6 (localStorage (persist s s))"
    and "eligible st"
  shows "laps (mount k st) = laps s \<and> length (laps (mount k st)) = length (laps s) \<and>
         map startTs (laps (mount k st)) = map startTs (laps s) \<and>
         map endTs (laps (mount k st)) = map endTs (laps s) \<and>
         map durationMs (laps (mount k st)) = map durationMs (laps s) \<and>
         map targetMinutes (laps (mount k st)) = map targetMinutes (laps s)"
proof -
  from assms(1,2) obtain p where p: "state_v6 st = Some (Object p)" "s_laps p = Some (laps s)"
    by (simp add: persist_def)
  from restore_eligible_v6 [OF assms(3) p(1)] p(2) have "laps (mount k st) = laps s"
    by (simp add: mount_frame)
  then show ?thesis by simp
qed

lemmas eval_defs = model_defs eligible_def restore_v6_def migrate_v5_def migrate_v4_def
  migrate_segment_def migrated_lap_def computePresetFromInput_def trim_def ascii_def
  js_whitespace_def

text \<open>
  Two laps cut in a session, saved by the effect of the session itself, and the page
  loaded again.
\<close>

theorem persist_restore_roundtrip_witness:
  "0 < reloadsLeft (run [(PresetChange (ascii ''5'') (Some (Num 5)), instant 0),
        (Start, instant 1000), (Tick, instant 61000), (Lap, instant 61000),
        (PresetChange [] (Some NaN), instant 61500),
        (Tick, instant 91000), (Lap, instant 91000)] (mount (instant 0) empty_storage)) \<and>
   eligible (localStorage (run [(PresetChange (ascii ''5'') (Some (Num 5)), instant 0),
        (Start, instant 1000), (Tick, instant 61000), (Lap, instant 61000),
        (PresetChange [] (Some NaN), instant 61500),
        (Tick, instant 91000), (Lap, instant 91000)] (mount (instant 0) empty_storage))) \<and>
   laps (mount (instant 100000) (localStorage
      (run [(PresetChange (ascii ''5'') (Some (Num 5)), instant 0),
        (Start, instant 1000), (Tick, instant 61000), (Lap, instant 61000),
        (PresetChange [] (Some NaN), instant 61500),
        (Tick, instant 91000), (Lap, instant 91000)] (mount (instant 0) empty_storage)))) =
     [\<lparr>startTs = 1000, endTs = 61000, durationMs = 60000, targetMinutes = Some 5\<rparr>,
      \<lparr>startTs = 61000, endTs = 91000, durationMs = 30000, targetMinutes = Some 5\<rparr>]"
proof -
  let ?s = "run [(PresetChange (ascii ''5'') (Some (Num 5)), instant 0),
        (Start, instant 1000), (Tick, instant 61000), (Lap, instant 61000),
        (PresetChange [] (Some NaN), instant 61500),
        (Tick, instant 91000), (Lap, instant 91000)] (mount (instant 0) empty_storage)"
  have a: "0 < reloadsLeft ?s" by (simp add: eval_defs)
  have b: "state_v6 (localStorage ?s) = state_v6 (localStorage (persist ?s ?s))"
    by (simp add: eval_defs)
  have c: "eligible (localStorage ?s)" by (simp add: eval_defs)
  have d: "laps ?s =
     [\<lparr>startTs = 1000, endTs = 61000, durationMs = 60000, targetMinutes = Some 5\<rparr>,
      \<lparr>startTs = 61000, endTs = 91000, durationMs = 30000, targetMinutes = Some 5\<rparr>]"
    by (simp add: eval_defs)
  from persist_restore_roundtrip [OF a b c, of "instant 100000"] a c d show ?thesis by simp
qed


lemma js_min_Min: "xs \<noteq> [] \<Longrightarrow> js_min xs = Min (set xs)"
proof (cases xs)
  case (Cons a list)
  then show ?thesis using Min.set_eq_fold [of a list] by simp
qed simp

lemma js_max_Max: "xs \<noteq> [] \<Longrightarrow> js_max xs = Max (set xs)"
proof (cases xs)
  case (Cons a list)
  then show ?thesis using Max.set_eq_fold [of a list] by simp
qed simp

lemma migrate_filter_map:
  "map migrate_segment (filter (\<lambda>sg. seg_start sg \<noteq> None \<and> seg_end sg \<noteq> None) segs) =
   List.map_filter migrated_lap segs"
  by (induction segs)
    (auto simp add: migrate_segment_def migrated_lap_def nullish_def
      split: option.splits)

lemma migrate_v4_result:
  assumes "l_segments lg = Some segs"
  shows "laps (migrate_v4 lg s) = List.map_filter migrated_lap segs"
    "sessionStartTsRef (migrate_v4 lg s) =
       (if List.map_filter migrated_lap segs \<noteq> []
        then Some (js_min (map startTs (List.map_filter migrated_lap segs))) else None)"
    "lapAnchorTsRef (migrate_v4 lg s) =
       (if List.map_filter migrated_lap segs \<noteq> []
        then Some (js_max (map endTs (List.map_filter migrated_lap segs))) else None)"
    "activeStartTsRef (migrate_v4 lg s) =
       (if List.map_filter migrated_lap segs \<noteq> []
        then Some (js_max (map endTs (List.map_filter migrated_lap segs))) else None)"
    "lastPauseTsRef (migrate_v4 lg s) =
       (if List.map_filter migrated_lap segs \<noteq> []
        then Some (js_max (map endTs (List.map_filter migrated_lap segs))) else None)"
  unfolding migrate_v4_def migrate_filter_map using assms by (simp_all add: Let_def)

lemma restore_eligible_v4:
  assumes "eligible st" and "state_v6 st = None" and "state_v5 st = None"
    and "state_v4 st = Some (Object lg)"
  shows "restore (initial st) =
           consume (case reloads_left_v6 st of Some (Count n) \<Rightarrow> n | _ \<Rightarrow> MAX_RELOADS)
             (migrate_v4 lg ((initial st)\<lparr>reloadsLeft :=
                (case reloads_left_v6 st of Some (Count n) \<Rightarrow> n | _ \<Rightarrow> MAX_RELOADS)\<rparr>))"
  using assms
  by (simp add: restore_def eligible_def initial_def MAX_RELOADS_def Let_def
      split: option.splits counter_text.splits)

text \<open>
  C8. On a load that may restore, with no current snapshot and none of the format
  before, a payload of the oldest format with a list of segments gives the laps of the
  segments that have numbers for \<open>start\<close> and \<open>end\<close>; when there is such a lap, the
  session starts at the least \<open>startTs\<close>, and the lap anchor, the start of the open
  segment and the last pause are the greatest \<open>endTs\<close>; when there is none, the four
  are \<open>null\<close>.
\<close>

theorem legacy_v4_migration:
  assumes "eligible st" and "state_v6 st = None" and "state_v5 st = None"
    and "state_v4 st = Some (Object lg)" and "l_segments lg = Some segs"
  shows "laps (mount k st) = List.map_filter migrated_lap segs \<and>
         (laps (mount k st) \<noteq> [] \<longrightarrow>
            sessionStartTsRef (mount k st) = Some (Min (set (map startTs (laps (mount k st))))) \<and>
            lapAnchorTsRef (mount k st) = Some (Max (set (map endTs (laps (mount k st))))) \<and>
            activeStartTsRef (mount k st) = Some (Max (set (map endTs (laps (mount k st))))) \<and>
            lastPauseTsRef (mount k st) = Some (Max (set (map endTs (laps (mount k st)))))) \<and>
         (laps (mount k st) = [] \<longrightarrow>
            sessionStartTsRef (mount k st) = None \<and> lapAnchorTsRef (mount k st) = None \<and>
            activeStartTsRef (mount k st) = None \<and> lastPauseTsRef (mount k st) = None)"
proof -
  let ?m = "List.map_filter migrated_lap segs"
  note r = restore_eligible_v4 [OF assms(1-4)]
  note m = migrate_v4_result [OF assms(5)]
  have l: "laps (mount k st) = ?m"
    by (simp add: mount_frame r consume_def Let_def m)
  have refs: "sessionStartTsRef (mount k st) =
       (if ?m \<noteq> [] then Some (js_min (map startTs ?m)) else None)"
    "lapAnchorTsRef (mount k st) = (if ?m \<noteq> [] then Some (js_max (map endTs ?m)) else None)"
    "activeStartTsRef (mount k st) = (if ?m \<noteq> [] then Some (js_max (map endTs ?m)) else None)"
    "lastPauseTsRef (mount k st) = (if ?m \<noteq> [] then Some (js_max (map endTs ?m)) else None)"
    by (simp_all add: mount_frame r consume_def Let_def m)
  show ?thesis
    unfolding l refs by (simp add: js_min_Min js_max_Max)
qed


theorem legacy_v4_migration_witness:
  "eligible \<lparr>reloads_left_v6 = None, state_v6 = None, state_v5 = None,
      state_v4 = Some (Object \<lparr>l_segments = Some
        [\<lparr>seg_start = Some 100, seg_end = Some 400, seg_targetMinutes = Some 5\<rparr>,
         \<lparr>seg_start = None, seg_end = Some 450, seg_targetMinutes = None\<rparr>,
         \<lparr>seg_start = Some 500, seg_end = Some 450, seg_targetMinutes = None\<rparr>],
        l_baseElapsed = None\<rparr>)\<rparr> \<and>
   laps (mount (instant 0) \<lparr>reloads_left_v6 = None, state_v6 = None, state_v5 = None,
      state_v4 = Some (Object \<lparr>l_segments = Some
        [\<lparr>seg_start = Some 100, seg_end = Some 400, seg_targetMinutes = Some 5\<rparr>,
         \<lparr>seg_start = None, seg_end = Some 450, seg_targetMinutes = None\<rparr>,
         \<lparr>seg_start = Some 500, seg_end = Some 450, seg_targetMinutes = None\<rparr>],
        l_baseElapsed = None\<rparr>)\<rparr>) =
     [\<lparr>startTs = 100, endTs = 400, durationMs = 300, targetMinutes = Some 5\<rparr>,
      \<lparr>startTs = 500, endTs = 450, durationMs = 0, targetMinutes = None\<rparr>] \<and>
   sessionStartTsRef (mount (instant 0) \<lparr>reloads_left_v6 = None, state_v6 = None,
      state_v5 = None,
      state_v4 = Some (Object \<lparr>l_segments = Some
        [\<lparr>seg_start = Some 100, seg_end = Some 400, seg_targetMinutes = Some 5\<rparr>,
         \<lparr>seg_start = None, seg_end = Some 450, seg_targetMinutes = None\<rparr>,
         \<lparr>seg_start = Some 500, seg_end = Some 450, seg_targetMinutes = None\<rparr>],
        l_baseElapsed = None\<rparr>)\<rparr>) = Some 100 \<and>
   lastPauseTsRef (mount (instant 0) \<lparr>reloads_left_v6 = None, state_v6 = None,
      state_v5 = None,
      state_v4 = Some (Object \<lparr>l_segments = Some
        [\<lparr>seg_start = Some 100, seg_end = Some 400, seg_targetMinutes = Some 5\<rparr>,
         \<lparr>seg_start = None, seg_end = Some 450, seg_targetMinutes = None\<rparr>,
         \<lparr>seg_start = Some 500, seg_end = Some 450, seg_targetMinutes = None\<rparr>],
        l_baseElapsed = None\<rparr>)\<rparr>) = Some 450"
proof -
  let ?segs = "[\<lparr>seg_start = Some 100, seg_end = Some 400, seg_targetMinutes = Some 5\<rparr>,
         \<lparr>seg_start = None, seg_end = Some 450, seg_targetMinutes = None\<rparr>,
         \<lparr>seg_start = Some 500, seg_end = Some 450, seg_targetMinutes = None\<rparr>]"
  let ?lg = "\<lparr>l_segments = Some ?segs, l_baseElapsed = None\<rparr>"
  let ?st = "\<lparr>reloads_left_v6 = None, state_v6 = None, state_v5 = None,
      state_v4 = Some (Object ?lg)\<rparr>"
  have a: "eligible ?st" by (simp add: eligible_def)
  have m: "List.map_filter migrated_lap ?segs =
     [\<lparr>startTs = 100, endTs = 400, durationMs = 300, targetMinutes = Some 5\<rparr>,
      \<lparr>startTs = 500, endTs = 450, durationMs = 0, targetMinutes = None\<rparr>]"
    by (simp add: List.map_filter_simps migrated_lap_def)
  from legacy_v4_migration [of ?st ?lg ?segs "instant 0"] a m show ?thesis by simp
qed


subsection \<open>Sessions over several page loads\<close>

text \<open>
  The first render satisfies the invariant of a session, and the first load of a page
  with nothing stored leaves the store in step with the state.
\<close>

lemma inv_initial: "inv (initial st)"
  by (simp add: inv_def initial_def lapsAccumulatedMs_def)

lemma saved_mount_empty: "saved (mount k empty_storage)"
  by (simp add: saved_def model_defs)

text \<open>Every event but a reset keeps the store in step.\<close>

lemma handled_refl:
  "saved s \<Longrightarrow> handled s s"
  by (simp add: handled_def saved_def)

lemma handleStart_handled:
  assumes "saved s" and "c_isRunning c = isRunning s"
  shows "handled s (handleStart c now s)"
proof (cases "isRunning s")
  case True
  with assms show ?thesis by (simp add: handleStart_def handled_refl)
next
  case False
  with assms(2) show ?thesis
    by (simp add: handleStart_def handled_def rerender_def Let_def)
qed

lemma handlePause_handled:
  assumes "saved s" and "c_isRunning c = isRunning s"
    and "lapsAccumulatedMs (laps s) \<le> c_elapsed c"
    and "\<not> isRunning s \<or> activeStartTsRef s \<noteq> None"
  shows "handled s (handlePause c eager now s)"
proof (cases "isRunning s")
  case False
  with assms show ?thesis by (simp add: handlePause_def handled_refl)
next
  case True
  let ?s' = "handlePause c eager now s"
  from True assms(2) have f: "reloadsLeft ?s' = reloadsLeft s" "localStorage ?s' = localStorage s"
    "keyClosure ?s' = keyClosure s" "laps ?s' = laps s" "\<not> isRunning ?s'"
    "activeStartTsRef ?s' = activeStartTsRef s" "c_elapsed c \<le> baseElapsed ?s'"
    by (simp_all add: handlePause_def Let_def)
  from True f(5) have r: "rerender s ?s'" by (simp add: rerender_def)
  from f r assms(3,4) True show ?thesis
    unfolding handled_def by simp
qed

lemma handleLap_handled:
  assumes "saved s" and "c_isRunning c = isRunning s"
  shows "handled s (handleLap c now s)"
proof (cases "isRunning s \<and> sessionStartTsRef s \<noteq> None")
  case False
  with assms have "handleLap c now s = s" by (auto simp add: handleLap_def)
  with assms(1) show ?thesis by (simp add: handled_refl)
next
  case True
  let ?s' = "handleLap c now s"
  from True assms(2) have f: "reloadsLeft ?s' = reloadsLeft s" "localStorage ?s' = localStorage s"
    "keyClosure ?s' = keyClosure s" "lapsId ?s' = lapsId s + 1" "isRunning ?s'"
    "activeStartTsRef ?s' = Some now"
    by (auto simp add: handleLap_def Let_def)
  from f(4) have r: "rerender s ?s'" by (simp add: rerender_def)
  from f r show ?thesis
    unfolding handled_def by simp
qed

lemma handlePresetChange_handled:
  assumes "saved s"
  shows "handled s (handlePresetChange raw v s)"
proof (cases "computePresetFromInput raw v = currentTargetMinutes s")
  case True
  then have "handlePresetChange raw v s = s" by (simp add: handlePresetChange_def)
  with assms show ?thesis by (simp add: handled_refl)
next
  case False
  with assms show ?thesis
    by (simp add: handlePresetChange_def handled_def rerender_def saved_def)
qed

lemma tick_handled:
  assumes "saved s" and "\<not> isRunning s \<or> activeStartTsRef s \<noteq> None"
  shows "handled s (dispatch Tick k s)"
proof (cases "isRunning s")
  case False
  with assms show ?thesis by (simp add: handled_refl)
next
  case True
  with assms show ?thesis by (simp add: handled_def rerender_def)
qed

lemma dispatch_handled:
  assumes "inv s" and "saved s" and "no_reset e"
  shows "handled s (dispatch e k s)"
proof -
  from assms(1) have i: "c_isRunning (keyClosure s) = isRunning s"
    "lapsAccumulatedMs (laps s) \<le> elapsed s"
    "\<not> isRunning s \<or> activeStartTsRef s \<noteq> None"
    by (auto simp add: inv_def)
  from assms(2) have v: "lapsAccumulatedMs (laps s) \<le> c_elapsed (keyClosure s)"
    by (simp add: saved_def)
  show ?thesis
  proof (cases e)
    case Start
    with handleStart_handled [OF assms(2), of "closure_of s" "handlerNow k"] show ?thesis
      by (simp add: closure_of_inv)
  next
    case Pause
    with handlePause_handled [OF assms(2), of "closure_of s" "eagerUpdater k" "handlerNow k"] i
    show ?thesis by (simp add: closure_of_inv)
  next
    case Lap
    with handleLap_handled [OF assms(2), of "closure_of s" "handlerNow k"] show ?thesis
      by (simp add: closure_of_inv)
  next
    case Reset
    with assms(3) show ?thesis by simp
  next
    case (PresetChange raw v)
    with handlePresetChange_handled [OF assms(2), of raw v] show ?thesis by simp
  next
    case KeySpace
    show ?thesis
    proof (cases "isRunning s")
      case True
      with KeySpace i(1) handlePause_handled [OF assms(2) i(1) v i(3), of "eagerUpdater k" "handlerNow k"]
      show ?thesis by simp
    next
      case False
      with KeySpace i(1) handleStart_handled [OF assms(2) i(1), of "handlerNow k"]
      show ?thesis by simp
    qed
  next
    case KeyL
    show ?thesis
    proof (cases "isRunning s")
      case True
      with KeyL i(1) handleLap_handled [OF assms(2) i(1), of "handlerNow k"]
      show ?thesis by simp
    next
      case False
      with KeyL i(1) assms(2) show ?thesis by (simp add: handled_refl)
    qed
  next
    case KeyR
    with assms(3) show ?thesis by simp
  next
    case Tick
    with tick_handled [OF assms(2) i(3), of k] show ?thesis by simp
  qed
qed

lemma persist_storage:
  "localStorage (persist r s) =
     (localStorage s)\<lparr>state_v6 :=
        (if 0 < reloadsLeft r
         then Some (Object
               \<lparr>s_laps = Some (laps r), s_baseElapsed = Some (baseElapsed r),
                s_sessionStartTs = sessionStartTsRef s,
                s_lapAnchorTs = lapAnchorTsRef s,
                s_activeStartTs = activeStartTsRef s,
                s_activeTargetMinutes = activeTargetMinutesRef s,
                s_lastPauseTs = lastPauseTsRef s,
                s_currentTargetMinutes = currentTargetMinutes r\<rparr>)
         else None)\<rparr>"
  by (simp add: persist_def)

lemma commit_saved:
  assumes "inv (commit k old s)" and "saved old"
    and "reloadsLeft s = reloadsLeft old" "localStorage s = localStorage old"
      "keyClosure s = keyClosure old"
    and "lapsId s \<noteq> lapsId old \<or> laps s = laps old"
    and "isRunning s \<or> lapsAccumulatedMs (laps s) \<le> baseElapsed s"
    and "activeStartTsRef s \<noteq> None \<or> baseElapsed s = 0"
  shows "saved (commit k old s)"
proof -
  let ?t = "commit k old s"
  from assms(1) have i: "lapsAccumulatedMs (laps s) \<le> elapsed ?t"
    "activeStartTsRef s \<noteq> None \<or> laps s = []"
    by (auto simp add: inv_def commit_frame)
  from assms(2) have o: "0 \<le> reloadsLeft old"
    "reloads_left_v6 (localStorage old) = Some (Count (reloadsLeft old))"
    "state_v5 (localStorage old) = None" "state_v4 (localStorage old) = None"
    "lapsAccumulatedMs (laps old) \<le> c_elapsed (keyClosure old)"
    by (simp_all add: saved_def)
  from assms(2) have snap: "(if 0 < reloadsLeft old
      then (case state_v6 (localStorage old) of
              Some (Object p) \<Rightarrow>
                s_laps p = Some (laps old) \<and> s_baseElapsed p = Some (baseElapsed old) \<and>
                (s_activeStartTs p \<noteq> None \<or> (laps old = [] \<and> baseElapsed old = 0))
            | Some SyntaxError \<Rightarrow> False | Some Falsy \<Rightarrow> False | None \<Rightarrow> False)
      else state_v6 (localStorage old) = None)"
    by (simp add: saved_def)
  have c1: "0 \<le> reloadsLeft ?t" using o assms(3) by (simp add: commit_frame)
  have c2: "reloads_left_v6 (localStorage ?t) = Some (Count (reloadsLeft ?t))"
    using o assms(3,4) by (simp add: commit_frame commit_storage persist_storage)
  have c3: "state_v5 (localStorage ?t) = None" "state_v4 (localStorage ?t) = None"
    using o assms(4) by (simp_all add: commit_storage persist_storage)
  have c4: "(if 0 < reloadsLeft ?t
      then (case state_v6 (localStorage ?t) of
              Some (Object p) \<Rightarrow>
                s_laps p = Some (laps ?t) \<and> s_baseElapsed p = Some (baseElapsed ?t) \<and>
                (s_activeStartTs p \<noteq> None \<or> (laps ?t = [] \<and> baseElapsed ?t = 0))
            | Some SyntaxError \<Rightarrow> False | Some Falsy \<Rightarrow> False | None \<Rightarrow> False)
      else state_v6 (localStorage ?t) = None)"
  proof (cases "lapsId s \<noteq> lapsId old \<or> baseElapsed s \<noteq> baseElapsed old \<or>
         currentTargetMinutes s \<noteq> currentTargetMinutes old \<or> reloadsLeft s \<noteq> reloadsLeft old")
    case True
    then have "localStorage ?t = localStorage (persist s s)" by (simp add: commit_storage)
    then show ?thesis
      using i(2) assms(8) by (auto simp add: persist_storage commit_frame)
  next
    case False
    then have st: "localStorage ?t = localStorage old" using assms(4) by (simp add: commit_storage)
    from False assms(6) have "laps s = laps old" "baseElapsed s = baseElapsed old" by auto
    with snap st assms(3) show ?thesis
      by (simp add: commit_frame split: if_splits option.splits parsed.splits)
  qed
  have c5: "lapsAccumulatedMs (laps ?t) \<le> c_elapsed (keyClosure ?t)"
    using i(1) o(5) assms(5)
    by (auto simp add: commit_frame commit_keyClosure)
  have c6: "isRunning ?t \<or> lapsAccumulatedMs (laps ?t) \<le> baseElapsed ?t"
    using assms(7) by (simp add: commit_frame)
  have c7: "activeStartTsRef ?t \<noteq> None \<or> baseElapsed ?t = 0"
    using assms(8) by (simp add: commit_frame)
  show ?thesis
    unfolding saved_def using c1 c2 c3 c4 c5 c6 c7 by blast
qed

lemma step_saved:
  assumes "inv s" and "saved s" and "no_reset e"
  shows "saved (step e k s)"
proof -
  let ?s' = "dispatch e k s"
  from dispatch_handled [OF assms, of k] have h: "reloadsLeft ?s' = reloadsLeft s"
    "localStorage ?s' = localStorage s" "keyClosure ?s' = keyClosure s"
    "lapsId ?s' \<noteq> lapsId s \<or> laps ?s' = laps s"
    "isRunning ?s' \<or> lapsAccumulatedMs (laps ?s') \<le> baseElapsed ?s'"
    "activeStartTsRef ?s' \<noteq> None \<or> baseElapsed ?s' = 0"
    "rerender s ?s' \<or> ?s' = s"
    by (simp_all add: handled_def)
  show ?thesis
  proof (cases "rerender s ?s'")
    case False
    with h(7) have "?s' = s" by simp
    with False assms(2) show ?thesis by (simp add: step_def)
  next
    case True
    then have eq: "step e k s = commit k s ?s'" by (simp add: step_def)
    from step_inv [OF assms(1,3), of k] eq have "inv (commit k s ?s')" by simp
    from commit_saved [OF this assms(2) h(1-6)] eq show ?thesis by simp
  qed
qed

text \<open>
  A page loaded again while the timer is not running: with no reload left it starts
  anew; with one left it restores the laps and the \<open>baseElapsed\<close> of the snapshot, which
  are those of the state that was left, and \<open>elapsed\<close> is that \<open>baseElapsed\<close>.
\<close>

lemma restore_v6_fields:
  "laps (restore_v6 p s) = (case s_laps p of Some ls \<Rightarrow> ls | None \<Rightarrow> laps s)"
  "lapsId (restore_v6 p s) = (case s_laps p of Some ls \<Rightarrow> lapsId s + 1 | None \<Rightarrow> lapsId s)"
  "baseElapsed (restore_v6 p s) = (case s_baseElapsed p of Some b \<Rightarrow> b | None \<Rightarrow> baseElapsed s)"
  "activeStartTsRef (restore_v6 p s) =
     (case s_activeStartTs p of Some t \<Rightarrow> Some t | None \<Rightarrow> activeStartTsRef s)"
  "isRunning (restore_v6 p s) = isRunning s" "tick (restore_v6 p s) = tick s"
  "reloadsLeft (restore_v6 p s) = reloadsLeft s" "localStorage (restore_v6 p s) = localStorage s"
  "keyClosure (restore_v6 p s) = keyClosure s" "activeRow (restore_v6 p s) = activeRow s"
  "hasActive (restore_v6 p s) = hasActive s" "rawElapsed (restore_v6 p s) = rawElapsed s"
  "startedAtRef (restore_v6 p s) = startedAtRef s"
  by (simp_all add: restore_v6_def Let_def split: option.splits)

lemma reload_exhausted:
  assumes "reloads_left_v6 st = Some (Count 0)" and "state_v5 st = None" and "state_v4 st = None"
  shows "inv (mount k st) \<and> saved (mount k st)"
  using assms
  by (simp add: mount_def initial_def restore_def persist_def rerender_def MAX_RELOADS_def
      Let_def commit_def render_def render_elapsed_def render_activeRow_def render_range_def
      closure_of_def lapsAccumulatedMs_def inv_def saved_def)

lemma reload_eligible:
  assumes "reloads_left_v6 st = Some (Count n)" and "0 < n"
    and "state_v5 st = None" and "state_v4 st = None"
    and "state_v6 st = Some (Object p)"
    and "s_laps p = Some ls" and "s_baseElapsed p = Some b"
    and "s_activeStartTs p \<noteq> None \<or> (ls = [] \<and> b = 0)"
    and "lapsAccumulatedMs ls \<le> b"
  shows "inv (mount k st) \<and> saved (mount k st)"
proof -
  let ?s0 = "initial st"
  let ?s1 = "persist ?s0 (restore ?s0)"
  have r: "restore ?s0 = consume n (restore_v6 p (?s0\<lparr>reloadsLeft := n\<rparr>))"
    using assms(1,2,5) by (simp add: restore_def initial_def Let_def)
  have f: "laps ?s1 = ls" "lapsId ?s1 = 1" "baseElapsed ?s1 = b" "\<not> isRunning ?s1"
    "tick ?s1 = 0" "reloadsLeft ?s1 = n - 1" "activeStartTsRef ?s1 = s_activeStartTs p"
    "prevElapsedRef ?s1 = 0" "elapsed ?s1 = 0" "rawElapsed ?s1 = 0" "activeRow ?s1 = None"
    "keyClosure ?s1 = keyClosure ?s0" "startedAtRef ?s1 = None"
    using assms(2,6,7)
    by (simp_all add: r frames consume_def Let_def restore_v6_fields restore_v6_keeps)
      (simp_all add: initial_def split: option.splits)
  have f0: "lapsId ?s0 = 0" "baseElapsed ?s0 = 0" "\<not> isRunning ?s0" "tick ?s0 = 0"
    "reloadsLeft ?s0 = 2" "activeStartTsRef ?s0 = None" "prevElapsedRef ?s0 = 0"
    "elapsed ?s0 = 0" "rawElapsed ?s0 = 0" "activeRow ?s0 = None" "laps ?s0 = []"
    "c_elapsed (keyClosure ?s0) = 0"
    by (simp_all add: initial_def MAX_RELOADS_def)
  have st1: "reloads_left_v6 (localStorage ?s1) = Some (Count (n - 1))"
    "state_v5 (localStorage ?s1) = None" "state_v4 (localStorage ?s1) = None"
    using assms(2,3,4)
    by (simp_all add: persist_storage r consume_def Let_def restore_v6_fields)
      (simp_all add: initial_def)
  have m: "mount k st = commit k ?s0 ?s1"
    using f(2) f0(1) by (simp add: mount_def Let_def rerender_def)
  have el: "elapsed (render_elapsed k ?s0 ?s1) = max 0 b"
    using f f0 by (simp add: render_elapsed_def Let_def)
  have i: "inv (commit k ?s0 ?s1)"
  proof (rule commit_inv_gen [OF inv_initial])
    show "lapsAccumulatedMs (laps ?s1) \<le> elapsed (render_elapsed k ?s0 ?s1)"
      using assms(9) f(1) el by simp
    show "activeStartTsRef ?s1 \<noteq> None \<or>
      activeStartTsRef ?s0 = None \<and> laps ?s1 = [] \<and> isRunning ?s1 = isRunning ?s0 \<and>
      baseElapsed ?s1 = baseElapsed ?s0 \<and> tick ?s1 = tick ?s0"
      using assms(8) f f0 by auto
  qed (use f f0 in simp_all)
  let ?t = "commit k ?s0 ?s1"
  have c1: "0 \<le> reloadsLeft ?t" using assms(2) f(6) by (simp add: commit_frame)
  have c2: "reloads_left_v6 (localStorage ?t) = Some (Count (reloadsLeft ?t))"
    using st1 f(6) by (simp add: commit_frame commit_storage persist_storage)
  have c3: "state_v5 (localStorage ?t) = None" "state_v4 (localStorage ?t) = None"
    using st1 by (simp_all add: commit_storage persist_storage)
  have ps: "localStorage ?t = localStorage (persist ?s1 ?s1)"
    using f(2) f0(1) by (simp add: commit_storage)
  have c4: "(if 0 < reloadsLeft ?t
      then (case state_v6 (localStorage ?t) of
              Some (Object p) \<Rightarrow>
                s_laps p = Some (laps ?t) \<and> s_baseElapsed p = Some (baseElapsed ?t) \<and>
                (s_activeStartTs p \<noteq> None \<or> (laps ?t = [] \<and> baseElapsed ?t = 0))
            | Some SyntaxError \<Rightarrow> False | Some Falsy \<Rightarrow> False | None \<Rightarrow> False)
      else state_v6 (localStorage ?t) = None)"
    using assms(8) f(1,3,6,7) by (auto simp add: ps persist_storage commit_frame)
  have c5: "lapsAccumulatedMs (laps ?t) \<le> c_elapsed (keyClosure ?t)"
    using assms(9) f f0 el
    by (auto simp add: commit_frame commit_keyClosure lapsAccumulatedMs_def)
  have c6: "isRunning ?t \<or> lapsAccumulatedMs (laps ?t) \<le> baseElapsed ?t"
    using assms(9) f by (simp add: commit_frame)
  have c7: "activeStartTsRef ?t \<noteq> None \<or> baseElapsed ?t = 0"
    using assms(8) f by (auto simp add: commit_frame)
  have "saved ?t"
    unfolding saved_def using c1 c2 c3 c4 c5 c6 c7 by blast
  with i m show ?thesis by simp
qed

lemma reload_inv_saved:
  assumes "inv s" and "saved s" and "\<not> isRunning s"
  shows "inv (mount k (localStorage s)) \<and> saved (mount k (localStorage s))"
proof (cases "0 < reloadsLeft s")
  case False
  with assms(2) have "reloads_left_v6 (localStorage s) = Some (Count 0)"
    "state_v5 (localStorage s) = None" "state_v4 (localStorage s) = None"
    by (simp_all add: saved_def)
  then show ?thesis by (rule reload_exhausted)
next
  case True
  with assms(2) obtain p where p: "state_v6 (localStorage s) = Some (Object p)"
    "s_laps p = Some (laps s)" "s_baseElapsed p = Some (baseElapsed s)"
    "s_activeStartTs p \<noteq> None \<or> (laps s = [] \<and> baseElapsed s = 0)"
    by (auto simp add: saved_def split: option.splits parsed.splits)
  from assms(2) have o: "reloads_left_v6 (localStorage s) = Some (Count (reloadsLeft s))"
    "state_v5 (localStorage s) = None" "state_v4 (localStorage s) = None"
    by (simp_all add: saved_def)
  from assms(2,3) have le: "lapsAccumulatedMs (laps s) \<le> baseElapsed s"
    by (simp add: saved_def)
  from reload_eligible [OF o(1) True o(2,3) p le] show ?thesis .
qed

lemma play_inv_saved:
  "inv s \<Longrightarrow> saved s \<Longrightarrow> allowed as s \<Longrightarrow> inv (play as s) \<and> saved (play as s)"
proof (induction as arbitrary: s)
  case Nil
  then show ?case by simp
next
  case (Cons a as)
  show ?case
  proof (cases a)
    case (Event e k)
    with Cons.prems have nr: "no_reset e" and rest: "allowed as (step e k s)" by simp_all
    from step_inv [OF Cons.prems(1) nr, of k] step_saved [OF Cons.prems(1,2) nr, of k]
      Cons.IH [OF _ _ rest] Event show ?thesis by simp
  next
    case (Reload k)
    with Cons.prems have p: "\<not> isRunning s" and rest: "allowed as (mount k (localStorage s))"
      by simp_all
    from reload_inv_saved [OF Cons.prems(1,2) p, of k] Cons.IH [OF _ _ rest] Reload
    show ?thesis by simp
  qed
qed

text \<open>
  C1. From a page first loaded with nothing stored, through any starts, pauses,
  resumes and lap cuts, by button or by key, any ticks and changes of the target, any
  readings of the clock, and any loads of the page again made while the timer is not
  running: at every state the durations of the completed laps and that of the row of the
  open segment, if there is one, add up to \<open>elapsed\<close>; and the duration of that row is
  \<open>elapsed\<close> minus the sum of the completed laps, whatever its \<open>startTs\<close> and \<open>endTs\<close>
  are.
\<close>

theorem lap_accounting:
  assumes "allowed as (mount k empty_storage)"
  shows "sum_list (map durationMs (laps (play as (mount k empty_storage)))) +
           (case activeRow (play as (mount k empty_storage)) of
              None \<Rightarrow> 0 | Some r \<Rightarrow> durationMs r) =
         elapsed (play as (mount k empty_storage)) \<and>
         (case activeRow (play as (mount k empty_storage)) of
            None \<Rightarrow> True
          | Some r \<Rightarrow> durationMs r =
              elapsed (play as (mount k empty_storage)) -
              lapsAccumulatedMs (laps (play as (mount k empty_storage))))"
proof -
  let ?s = "play as (mount k empty_storage)"
  from play_inv_saved [OF mount_empty_inv saved_mount_empty assms] have "inv ?s" by simp
  then show ?thesis
    by (auto simp add: inv_def lapsAccumulatedMs_sum split: option.splits)
qed

text \<open>
  Started at 0, a lap cut at 60000, paused from 90000, the page loaded again at 100000,
  resumed at 110000 and read at 120000: one lap of 60000 ms, and an open segment that
  has run 40000 ms between a \<open>startTs\<close> and an \<open>endTs\<close> that are 60000 ms apart, in an
  \<open>elapsed\<close> of 100000 ms.
\<close>

theorem lap_accounting_witness:
  "allowed [Event Start (instant 0), Event Tick (instant 60000), Event Lap (instant 60000),
            Event Tick (instant 90000), Event Pause (instant 90000), Reload (instant 100000),
            Event Start (instant 110000), Event Tick (instant 120000)]
     (mount (instant 0) empty_storage) \<and>
   laps (play [Event Start (instant 0), Event Tick (instant 60000), Event Lap (instant 60000),
               Event Tick (instant 90000), Event Pause (instant 90000), Reload (instant 100000),
               Event Start (instant 110000), Event Tick (instant 120000)]
           (mount (instant 0) empty_storage)) =
     [\<lparr>startTs = 0, endTs = 60000, durationMs = 60000, targetMinutes = None\<rparr>] \<and>
   activeRow (play [Event Start (instant 0), Event Tick (instant 60000),
                    Event Lap (instant 60000), Event Tick (instant 90000),
                    Event Pause (instant 90000), Reload (instant 100000),
                    Event Start (instant 110000), Event Tick (instant 120000)]
                (mount (instant 0) empty_storage)) =
     Some \<lparr>startTs = 60000, endTs = 120000, durationMs = 40000, targetMinutes = None\<rparr> \<and>
   elapsed (play [Event Start (instant 0), Event Tick (instant 60000),
                  Event Lap (instant 60000), Event Tick (instant 90000),
                  Event Pause (instant 90000), Reload (instant 100000),
                  Event Start (instant 110000), Event Tick (instant 120000)]
              (mount (instant 0) empty_storage)) = 100000"
  using lap_accounting [of "[Event Start (instant 0), Event Tick (instant 60000),
      Event Lap (instant 60000), Event Tick (instant 90000), Event Pause (instant 90000),
      Reload (instant 100000), Event Start (instant 110000), Event Tick (instant 120000)]"
      "instant 0"]
  by (simp add: eval_defs)

text \<open>
  The page loaded again while the timer is running: \<open>baseElapsed\<close> is saved as of the
  last pause and the laps as of the last cut, so after a start at 0, a lap cut at 60000
  and a load at 70000 the completed lap is 60000 ms, the row of the open segment 0 ms,
  and \<open>elapsed\<close> 0 ms.
\<close>

theorem lap_accounting_counterexample:
  "sum_list (map durationMs
     (laps (play [Event Start (instant 0), Event Tick (instant 60000),
                  Event Lap (instant 60000), Reload (instant 70000)]
              (mount (instant 0) empty_storage)))) = 60000 \<and>
   activeRow (play [Event Start (instant 0), Event Tick (instant 60000),
                    Event Lap (instant 60000), Reload (instant 70000)]
                (mount (instant 0) empty_storage)) =
     Some \<lparr>startTs = 60000, endTs = 70000, durationMs = 0, targetMinutes = None\<rparr> \<and>
   elapsed (play [Event Start (instant 0), Event Tick (instant 60000),
                  Event Lap (instant 60000), Reload (instant 70000)]
              (mount (instant 0) empty_storage)) = 0 \<and>
   sum_list (map durationMs
     (laps (play [Event Start (instant 0), Event Tick (instant 60000),
                  Event Lap (instant 60000), Reload (instant 70000)]
              (mount (instant 0) empty_storage)))) + 0 \<noteq>
   elapsed (play [Event Start (instant 0), Event Tick (instant 60000),
                  Event Lap (instant 60000), Reload (instant 70000)]
              (mount (instant 0) empty_storage))"
  by (simp add: eval_defs)

subsection \<open>The count of reloads\<close>

text \<open>
  A load with a positive count and a current snapshot that parses, or none, lowers the
  count by one, in the store and in \<open>reloadsLeft\<close>; a load with the count 0 removes
  the current snapshot, restores nothing and leaves the count at 0.
\<close>

lemma restore_counter:
  "reloads_left_v6 (localStorage (restore_v6 p s)) = reloads_left_v6 (localStorage s)"
  "reloads_left_v6 (localStorage (migrate_v5 p s)) = reloads_left_v6 (localStorage s)"
  "reloads_left_v6 (localStorage (migrate_v4 lg s)) = reloads_left_v6 (localStorage s)"
  by (simp_all add: restore_v6_def migrate_v5_def migrate_v4_def Let_def split: option.splits)

lemma reload_budget_consumed:
  assumes "reloads_left_v6 st = Some (Count n)" and "0 < n" and "state_v6 st \<noteq> Some SyntaxError"
  shows "reloads_left_v6 (localStorage (mount k st)) = Some (Count (n - 1)) \<and>
         reloadsLeft (mount k st) = n - 1"
  using assms
  by (simp add: mount_frame restore_def initial_def consume_def Let_def
      split: option.splits parsed.splits)

lemma reload_budget_exhausted:
  assumes "reloads_left_v6 st = Some (Count 0)"
  shows "state_v6 (localStorage (mount k st)) = None \<and>
         reloads_left_v6 (localStorage (mount k st)) = Some (Count 0) \<and>
         reloadsLeft (mount k st) = 0 \<and> laps (mount k st) = [] \<and>
         baseElapsed (mount k st) = 0 \<and> sessionStartTsRef (mount k st) = None \<and>
         activeStartTsRef (mount k st) = None \<and> currentTargetMinutes (mount k st) = None"
  using assms
  by (simp add: mount_def restore_def initial_def persist_def rerender_def MAX_RELOADS_def
      Let_def commit_storage commit_frame)

text \<open>
  C2. With a count of 2 and a current snapshot that \<open>JSON.parse\<close> rejects, the load
  restores nothing and leaves the count at 2, in the store and in \<open>reloadsLeft\<close>: the
  exception leaves the effect before the count is lowered.
\<close>

theorem reload_budget_kept_on_syntax_error:
  "reloads_left_v6 (localStorage (mount k corrupt_storage)) = Some (Count 2) \<and>
   reloadsLeft (mount k corrupt_storage) = 2 \<and>
   laps (mount k corrupt_storage) = []"
  by (simp add: mount_frame restore_def initial_def corrupt_storage_def MAX_RELOADS_def)

section \<open>The text of the export\<close>

text \<open>
  The characters of the parts of the text: digits, the minus sign, the colon, and
  those of the literals.
\<close>

lemma digits_chars: "c \<in> set (digits n) \<Longrightarrow> 48 \<le> c \<and> c \<le> 57"
proof (induction n rule: digits.induct)
  case (1 n)
  show ?case
  proof (cases "n < 10")
    case True
    with "1.prems" show ?thesis by (simp add: digits.simps)
  next
    case False
    with "1.prems" have "c \<in> set (digits (n div 10)) \<or> c = 48 + n mod 10"
      by (auto simp add: digits.simps [of n])
    with "1.IH" False show ?thesis by auto
  qed
qed

lemma int_str_chars: "c \<in> set (int_str n) \<Longrightarrow> c = 45 \<or> 48 \<le> c \<and> c \<le> 57"
  by (auto simp add: int_str_def dest: digits_chars split: if_splits)

lemma padStart2_chars: "c \<in> set (padStart2 s) \<Longrightarrow> c = 48 \<or> c \<in> set s"
  by (auto simp add: padStart2_def)

lemma fmtHMS_chars: "c \<in> set (fmtHMS ms) \<Longrightarrow> c = 45 \<or> c = 58 \<or> 48 \<le> c \<and> c \<le> 57"
  by (auto simp add: fmtHMS_def msToHMS_def Let_def ascii_def
      dest!: padStart2_chars int_str_chars)

lemma plainD: "plain f \<Longrightarrow> c \<in> set (f t) \<Longrightarrow> c \<noteq> 10 \<and> \<not> bracket c"
  by (auto simp add: plain_def list_all_iff)

lemma lap_line_chars:
  "plain f \<Longrightarrow> c \<in> set (lap_line f i l) \<Longrightarrow> c \<noteq> 10 \<and> \<not> bracket c"
  by (auto simp add: lap_line_def Let_def ascii_def bracket_def
      dest!: int_str_chars dest: plainD)

lemma total_line_chars:
  "plain f \<Longrightarrow> c \<in> set (total_line f a b d) \<Longrightarrow> c \<noteq> 10 \<and> \<not> bracket c"
  by (auto simp add: total_line_def ascii_def bracket_def
      dest!: fmtHMS_chars dest: plainD)

text \<open>Lines without a line feed, joined and split again, are the lines.\<close>

lemma join_nl_chars: "c \<in> set (join_nl ls) \<Longrightarrow> c = 10 \<or> (\<exists>l \<in> set ls. c \<in> set l)"
  by (induction ls rule: join_nl.induct) auto

lemma split_join_nl:
  "ls \<noteq> [] \<Longrightarrow> \<forall>l \<in> set ls. 10 \<notin> set l \<Longrightarrow> split_nl (join_nl ls) = ls"
proof (induction ls rule: join_nl.induct)
  case 1
  then show ?case by simp
next
  case (2 l)
  then show ?case by (induction l) (auto split: list.splits)
next
  case (3 l l' ls)
  from "3.prems" have "10 \<notin> set l" by simp
  then have "split_nl (l @ 10 # join_nl (l' # ls)) = l # split_nl (join_nl (l' # ls))"
    by (induction l) (auto split: list.splits)
  with 3 show ?case by simp
qed


text \<open>
  The contract of the export but for the test of the range: the fixed text for no lap;
  else one line for each lap in the order of the list, numbered from 1, and, when
  \<open>rStart\<close> and \<open>rEnd\<close> pass the test \<open>if (rStart && rEnd)\<close>, an empty line and
  the line of the total; the open segment is no argument of the function; and no ASCII
  bracket, when the texts of the times have none.
\<close>

lemma buildTextSummary_no_laps: "buildTextSummary f [] a b d = no_laps_text"
  by (simp add: buildTextSummary_def)

lemma buildTextSummary_join:
  "ls \<noteq> [] \<Longrightarrow>
   buildTextSummary f ls a b d =
     join_nl (map (\<lambda>i. lap_line f i (ls ! i)) [0..<length ls] @
       (if truthy a \<and> truthy b
        then [[], total_line f (nullish a 0) (nullish b 0) (nullish d 0)] else []))"
proof -
  have e: "map (\<lambda>(idx, lap). lap_line f idx lap) (enumerate 0 ls) =
           map (\<lambda>i. lap_line f i (ls ! i)) [0..<length ls]"
    by (rule nth_equalityI) (simp_all add: nth_enumerate_eq)
  assume "ls \<noteq> []"
  then show ?thesis
    unfolding buildTextSummary_def Let_def e by simp
qed

lemma buildTextSummary_lines:
  assumes "plain f" and "ls \<noteq> []"
  shows "split_nl (buildTextSummary f ls a b d) =
           map (\<lambda>i. lap_line f i (ls ! i)) [0..<length ls] @
           (if truthy a \<and> truthy b
            then [[], total_line f (nullish a 0) (nullish b 0) (nullish d 0)] else [])"
proof -
  let ?all = "map (\<lambda>i. lap_line f i (ls ! i)) [0..<length ls] @ (if truthy a \<and> truthy b
            then [[], total_line f (nullish a 0) (nullish b 0) (nullish d 0)] else [])"
  have ne: "?all \<noteq> []" using assms(2) by simp
  have nl: "\<forall>l \<in> set ?all. 10 \<notin> set l"
    using assms(1) by (auto dest: lap_line_chars total_line_chars)
  from split_join_nl [OF ne nl] buildTextSummary_join [OF assms(2)] show ?thesis by simp
qed

lemma buildTextSummary_no_brackets:
  assumes "plain f" and "c \<in> set (buildTextSummary f ls a b d)"
  shows "\<not> bracket c"
proof (cases "ls = []")
  case True
  with assms(2) show ?thesis
    by (auto simp add: buildTextSummary_def no_laps_text_def bracket_def)
next
  case False
  from assms(2) have "c \<in> set (join_nl (map (\<lambda>i. lap_line f i (ls ! i)) [0..<length ls] @
       (if truthy a \<and> truthy b
        then [[], total_line f (nullish a 0) (nullish b 0) (nullish d 0)] else [])))"
    unfolding buildTextSummary_join [OF False] .
  from join_nl_chars [OF this] assms(1) show ?thesis
    by (auto simp add: bracket_def split: if_splits dest: lap_line_chars total_line_chars)
qed



lemma plain_minutes_text: "plain minutes_text"
  by (auto simp add: plain_def minutes_text_def list_all_iff bracket_def dest!: int_str_chars)

text \<open>
  The third self-test of \<open>App\<close>, with the formatter of the examples: two laps and a
  range give four lines.
\<close>

lemma selftest_summary:
  "length (split_nl (buildTextSummary minutes_text
     [\<lparr>startTs = 1700000000000, endTs = 1700000060000, durationMs = 60000,
        targetMinutes = None\<rparr>,
      \<lparr>startTs = 1700000060000, endTs = 1700000120000, durationMs = 60000,
        targetMinutes = None\<rparr>]
     (Some 1700000000000) (Some 1700000120000) (Some 120000))) = 4"
  using buildTextSummary_lines [OF plain_minutes_text, of
     "[\<lparr>startTs = 1700000000000, endTs = 1700000060000, durationMs = 60000,
         targetMinutes = None\<rparr>,
       \<lparr>startTs = 1700000060000, endTs = 1700000120000, durationMs = 60000,
         targetMinutes = None\<rparr>]"
     "Some 1700000000000" "Some 1700000120000" "Some 120000"]
  by (simp add: truthy_def)

text \<open>
  C9. For laps started at 0 the export has the line of the lap and no more, neither
  the empty line nor the line of the total, though the range has a start and an end:
  \<open>if (rangeStart && rangeEnd)\<close> fails at 0. So it is for the session that starts
  when the clock reads 0 and cuts a lap at 60000. Started at 1, the export has the
  three lines.
\<close>

theorem summary_total_missing_at_zero:
  "buildTextSummary f
     [\<lparr>startTs = 0, endTs = 60000, durationMs = 60000, targetMinutes = None\<rparr>]
     (Some 0) (Some 60000) (Some 60000) =
   lap_line f 0 \<lparr>startTs = 0, endTs = 60000, durationMs = 60000, targetMinutes = None\<rparr> \<and>
   rangeStart (run [(Start, instant 0), (Tick, instant 60000), (Lap, instant 60000)]
                 (mount (instant 0) empty_storage)) = Some 0 \<and>
   rangeEnd (run [(Start, instant 0), (Tick, instant 60000), (Lap, instant 60000)]
               (mount (instant 0) empty_storage)) = Some 60000 \<and>
   summaryText f (run [(Start, instant 0), (Tick, instant 60000), (Lap, instant 60000)]
                    (mount (instant 0) empty_storage)) =
   lap_line f 0 \<lparr>startTs = 0, endTs = 60000, durationMs = 60000, targetMinutes = None\<rparr> \<and>
   buildTextSummary f
     [\<lparr>startTs = 1, endTs = 60001, durationMs = 60000, targetMinutes = None\<rparr>]
     (Some 1) (Some 60001) (Some 60000) =
   lap_line f 0 \<lparr>startTs = 1, endTs = 60001, durationMs = 60000, targetMinutes = None\<rparr> @
   [10, 10] @ total_line f 1 60001 60000"
proof -
  let ?s = "run [(Start, instant 0), (Tick, instant 60000), (Lap, instant 60000)]
              (mount (instant 0) empty_storage)"
  have st: "rangeStart ?s = Some 0" "rangeEnd ?s = Some 60000"
    "laps ?s = [\<lparr>startTs = 0, endTs = 60000, durationMs = 60000, targetMinutes = None\<rparr>]"
    by (simp_all add: model_defs)
  have z: "buildTextSummary f
     [\<lparr>startTs = 0, endTs = 60000, durationMs = 60000, targetMinutes = None\<rparr>]
     (Some 0) (Some 60000) d =
   lap_line f 0 \<lparr>startTs = 0, endTs = 60000, durationMs = 60000, targetMinutes = None\<rparr>" for d
    by (simp add: buildTextSummary_def truthy_def enumerate_eq_zip)
  have o: "buildTextSummary f
     [\<lparr>startTs = 1, endTs = 60001, durationMs = 60000, targetMinutes = None\<rparr>]
     (Some 1) (Some 60001) (Some 60000) =
   lap_line f 0 \<lparr>startTs = 1, endTs = 60001, durationMs = 60000, targetMinutes = None\<rparr> @
   [10, 10] @ total_line f 1 60001 60000"
    by (simp add: buildTextSummary_def truthy_def enumerate_eq_zip nullish_def)
  from st z o show ?thesis by (simp add: summaryText_def)
qed

section \<open>The self-tests of the source\<close>

text \<open>
  The assertions that \<open>App\<close> runs on its mount hold of the definitions above: the
  formats, the status at and around the target, and the parsing of the target input.
\<close>

lemma selftest_fmtHMS:
  "fmtHMS 0 = ascii ''00:00:00''" "fmtHMS 3661000 = ascii ''01:01:01''"
  by code_simp+

lemma selftest_getPresetStatus:
  "getPresetStatus (61 * 60000) (Some (Num 60)) = Exceeded"
  "getPresetStatus (59 * 60000) (Some (Num 60)) = NotExceeded"
  "getPresetStatus (10 * 60000) None = Unset"
  "getPresetStatus (60 * 60000) (Some (Num 60)) = NotExceeded"
  by (simp_all add: Let_def)

lemma selftest_computePresetFromInput:
  "computePresetFromInput [] (Some NaN) = None"
  "computePresetFromInput (ascii ''   '') (Some NaN) = None"
  "computePresetFromInput (ascii ''0'') (Some (Num 0)) = Some 0"
  "computePresetFromInput (ascii ''003'') (Some (Num 3)) = Some 3"
  "computePresetFromInput (ascii ''5.9'') (Some (Num (59 / 10))) = Some 5"
  by (simp_all add: computePresetFromInput_def trim_def ascii_def js_whitespace_def)

end
